theory Spec2Isabelle
  imports Complex_Main
begin

unbundle bit_operations_syntax

section \<open>Exceptions, console output and the serial line\<close>

text \<open>
  The exception classes of \<^verbatim>\<open>custom_exceptions.py\<close>, and the built-in exceptions the
  modelled code can raise (\<^verbatim>\<open>bytearray\<close> of a value outside \<open>0..255\<close> is a
  \<open>ValueError\<close>, \<^verbatim>\<open>err_lst[7]\<close> an \<open>IndexError\<close>, a division by the length of an
  empty list a \<open>ZeroDivisionError\<close>).
\<close>

datatype exn =
  InputVoltageError | AngleLimitError | OverheatingError | RangeError
  | ChecksumError | OverloadError | InstructionError
  | MemoryAccessError | PacketTypeError
  | AttributeError | IndexError | ValueError | ZeroDivisionError

text \<open>The lines the code prints.\<close>

datatype notice =
  Error_occured | Check_log_file | Angle_zu_gross | Angle_zu_klein | Invalid_speed_value

text \<open>
  The world outside an object: \<open>written\<close> holds the byte strings handed to
  \<^verbatim>\<open>serial.write\<close>, oldest first; \<open>rx\<close> holds what the line delivers to each successive
  \<^verbatim>\<open>serial.read\<close> before its timeout (a read of \<open>n\<close> returns at most \<open>n\<close> of them, and
  nothing once \<open>rx\<close> is used up); \<open>debug_log\<close> is the file \<^verbatim>\<open>debug.log\<close>, one entry per
  logged exception class; \<open>console\<close> is what was printed.
\<close>

record env =
  written :: "int list list"
  rx :: "nat list list"
  debug_log :: "exn list"
  console :: "notice list"

text \<open>The attributes of a \<^verbatim>\<open>Dynamixel\<close> object (\<^verbatim>\<open>self.id\<close>, \<^verbatim>\<open>self.return_level\<close>, \<^verbatim>\<open>self.err\<close>).\<close>

record dynamixel = env +
  servo_id :: int
  return_level :: int
  err :: nat

text \<open>The attributes \<^verbatim>\<open>JointDrive.__init__\<close> adds.\<close>

record joint_drive = dynamixel +
  ccw :: bool
  a_offset :: real
  a_max :: real
  a_min :: real
  savedgoalposition :: real

text \<open>\<^verbatim>\<open>bytearray(pkt)\<close> accepts a list of integers in \<open>range(256)\<close> only.\<close>

definition bytearray_ok :: "int list \<Rightarrow> bool" where
  "bytearray_ok pkt = list_all (\<lambda>b. 0 \<le> b \<and> b < 256) pkt"

definition serial_write :: "int list \<Rightarrow> 'e env_scheme \<Rightarrow> (exn + unit) \<times> 'e env_scheme" where
  "serial_write pkt s =
     (if bytearray_ok pkt then (Inr (), s\<lparr>written := written s @ [pkt]\<rparr>)
      else (Inl ValueError, s))"

definition serial_read :: "nat \<Rightarrow> 'e env_scheme \<Rightarrow> nat list \<times> 'e env_scheme" where
  "serial_read n s =
     (case rx s of [] \<Rightarrow> ([], s) | c # cs \<Rightarrow> (take n c, s\<lparr>rx := cs\<rparr>))"

section \<open>custom_decorator.py and custom_exceptions.py\<close>

text \<open>
  \<^verbatim>\<open>decorator_error_handling\<close>: the wrapped call's value is returned; any exception is
  caught by the bare \<^verbatim>\<open>except\<close>, two lines are printed and the wrapper returns \<open>None\<close>.
  A Python value that may be \<open>None\<close> is an \<open>option\<close>.
\<close>

definition decorator_error_handling ::
  "(exn + 'a option) \<times> 'e env_scheme \<Rightarrow> (exn + 'a option) \<times> 'e env_scheme" where
  "decorator_error_handling r =
     (case r of
        (Inl e, s) \<Rightarrow> (Inr None, s\<lparr>console := console s @ [Error_occured, Check_log_file]\<rparr>)
      | (Inr v, s) \<Rightarrow> (Inr v, s))"

text \<open>The order of \<^verbatim>\<open>err_lst\<close> in \<^verbatim>\<open>__log_excep\<close>.\<close>

definition err_lst :: "exn list" where
  "err_lst = [InputVoltageError, AngleLimitError, OverheatingError, RangeError,
              ChecksumError, OverloadError, InstructionError]"

text \<open>
  \<^verbatim>\<open>raise Cls(name)\<close>. The constructor of a \<^verbatim>\<open>DynamixelError\<close> subclass writes the class to
  \<^verbatim>\<open>debug.log\<close>. \<^verbatim>\<open>JointDriveError\<close> derives from \<^verbatim>\<open>Exception\<close> and has no
  \<^verbatim>\<open>log\<close> method, so the constructors of \<^verbatim>\<open>MemoryAccessError\<close> and
  \<^verbatim>\<open>PacketTypeError\<close> fail with an \<open>AttributeError\<close>, which is what the raise statement
  then raises.
\<close>

definition raise_exn :: "exn \<Rightarrow> 'e env_scheme \<Rightarrow> (exn + 'a) \<times> 'e env_scheme" where
  "raise_exn e s =
     (if e \<in> set err_lst then (Inl e, s\<lparr>debug_log := debug_log s @ [e]\<rparr>)
      else if e = MemoryAccessError \<or> e = PacketTypeError then (Inl AttributeError, s)
      else (Inl e, s))"

section \<open>dynamixel.py\<close>

text \<open>\<^verbatim>\<open>bin(err)[2:]\<close> for \<open>err \<ge> 0\<close>: the binary digits, most significant first.\<close>

fun bin :: "nat \<Rightarrow> string" where
  "bin n = (if n < 2 then [if n = 1 then CHR ''1'' else CHR ''0'']
            else bin (n div 2) @ [if odd n then CHR ''1'' else CHR ''0''])"

declare bin.simps [simp del]

definition zfill :: "nat \<Rightarrow> string \<Rightarrow> string" where
  "zfill w str = replicate (w - length str) (CHR ''0'') @ str"

text \<open>
  The loop of \<^verbatim>\<open>__log_excep\<close> over the reversed digit string, \<open>c\<close> counting the position:
  the first digit \<open>1\<close> raises \<^verbatim>\<open>err_lst[c]\<close>, which leaves the loop.
\<close>

fun scan_bits :: "string \<Rightarrow> nat \<Rightarrow> 'e env_scheme \<Rightarrow> (exn + bool option) \<times> 'e env_scheme" where
  "scan_bits [] c s = (Inr None, s)"
| "scan_bits (b # rest) c s =
     (if b = CHR ''1''
      then (if c < length err_lst then raise_exn (err_lst ! c) s else (Inl IndexError, s))
      else scan_bits rest (c + 1) s)"

definition log_excep_body :: "nat \<Rightarrow> 'e env_scheme \<Rightarrow> (exn + bool option) \<times> 'e env_scheme" where
  "log_excep_body e s =
     (if e = 0 then (Inr (Some True), s)
      else scan_bits (rev (zfill 8 (bin e))) 0 s)"

text \<open>\<^verbatim>\<open>__log_excep\<close> as callers see it, under \<^verbatim>\<open>@decorator_error_handling\<close>.\<close>

definition log_excep :: "nat \<Rightarrow> 'e env_scheme \<Rightarrow> (exn + bool option) \<times> 'e env_scheme" where
  "log_excep e s = decorator_error_handling (log_excep_body e s)"

text \<open>\<^verbatim>\<open>__check_sum\<close>: \<^verbatim>\<open>(~sum(pkt[2:-1])) & 0xFF\<close>.\<close>

definition check_sum :: "int list \<Rightarrow> int" where
  "check_sum pkt = (NOT (sum_list (butlast (drop 2 pkt)))) AND 255"

text \<open>\<^verbatim>\<open>pkt[-1] = v\<close>; on an empty list Python raises an \<open>IndexError\<close>.\<close>

definition set_last :: "int list \<Rightarrow> int \<Rightarrow> exn + int list" where
  "set_last pkt v = (if pkt = [] then Inl IndexError else Inr (butlast pkt @ [v]))"

text \<open>
  \<^verbatim>\<open>__read_status_pkt\<close>: read up to \<open>n_byte\<close> bytes, store byte 4 as \<^verbatim>\<open>self.err\<close> when at
  least 6 bytes came, pass \<^verbatim>\<open>self.err\<close> to \<^verbatim>\<open>__log_excep\<close>, return the bytes read.
\<close>

definition read_status_pkt ::
  "nat \<Rightarrow> 'd dynamixel_scheme \<Rightarrow> (exn + nat list) \<times> 'd dynamixel_scheme" where
  "read_status_pkt n_byte s =
     (let (status_packet, s1) = serial_read n_byte s;
          s2 = (if length status_packet \<ge> 6 then s1\<lparr>err := status_packet ! 4\<rparr> else s1)
      in case log_excep (err s2) s2 of
           (Inl e, s3) \<Rightarrow> (Inl e, s3)
         | (Inr _, s3) \<Rightarrow> (Inr status_packet, s3))"

text \<open>
  \<^verbatim>\<open>__send_packet\<close>: set the checksum, write, and read a 6-byte status packet when the
  return level is 2 and the caller does not read the answer itself.
\<close>

definition send_packet ::
  "int list \<Rightarrow> bool \<Rightarrow> 'd dynamixel_scheme \<Rightarrow> (exn + unit) \<times> 'd dynamixel_scheme" where
  "send_packet pkt read_pkt s =
     (case set_last pkt (check_sum pkt) of
        Inl e \<Rightarrow> (Inl e, s)
      | Inr pkt' \<Rightarrow>
          (case serial_write pkt' s of
             (Inl e, s1) \<Rightarrow> (Inl e, s1)
           | (Inr _, s1) \<Rightarrow>
               if return_level s1 = 2 \<and> \<not> read_pkt
               then (case read_status_pkt 6 s1 of
                       (Inl e, s2) \<Rightarrow> (Inl e, s2)
                     | (Inr _, s2) \<Rightarrow> (Inr (), s2))
               else (Inr (), s1)))"

text \<open>\<^verbatim>\<open>__do_action\<close> and \<^verbatim>\<open>action\<close>, from the template \<^verbatim>\<open>[255, 255, 0, 2, 5, 0]\<close>.\<close>

definition do_action :: "int \<Rightarrow> 'd dynamixel_scheme \<Rightarrow> (exn + unit) \<times> 'd dynamixel_scheme" where
  "do_action i s = send_packet [255, 255, i, 2, 5, 0] False s"

definition action :: "'d dynamixel_scheme \<Rightarrow> (exn + unit) \<times> 'd dynamixel_scheme" where
  "action s = do_action (servo_id s) s"

text \<open>\<^verbatim>\<open>__write_read_data_pkt\<close>, from the template \<^verbatim>\<open>[255, 255, 0, 4, 2, 0, 0, 0]\<close>.\<close>

definition write_read_data_pkt ::
  "int \<Rightarrow> int \<Rightarrow> 'd dynamixel_scheme \<Rightarrow> (exn + unit) \<times> 'd dynamixel_scheme" where
  "write_read_data_pkt register n_byte s =
     send_packet [255, 255, servo_id s, 4, 2, register, n_byte, 0] True s"

text \<open>\<^verbatim>\<open>_request_n_byte\<close>; the result is \<^verbatim>\<open>return_packet[5:-1]\<close>.\<close>

definition request_n_byte ::
  "int \<Rightarrow> int \<Rightarrow> 'd dynamixel_scheme \<Rightarrow> (exn + nat list) \<times> 'd dynamixel_scheme" where
  "request_n_byte register dt_len s =
     (case write_read_data_pkt register dt_len s of
        (Inl e, s1) \<Rightarrow> (Inl e, s1)
      | (Inr _, s1) \<Rightarrow>
          (case read_status_pkt (nat (6 + dt_len)) s1 of
             (Inl e, s2) \<Rightarrow> (Inl e, s2)
           | (Inr return_packet, s2) \<Rightarrow> (Inr (butlast (drop 5 return_packet)), s2)))"

text \<open>
  \<^verbatim>\<open>_write_n_byte_pkt\<close>, from the template \<^verbatim>\<open>[255, 255, 0, 0, 3, 0]\<close>: the instruction is
  3 (direct) when \<open>trigger\<close> holds and 4 otherwise.
\<close>

definition write_n_byte_pkt ::
  "int \<Rightarrow> int list \<Rightarrow> bool \<Rightarrow> bool \<Rightarrow> 'd dynamixel_scheme \<Rightarrow> (exn + unit) \<times> 'd dynamixel_scheme" where
  "write_n_byte_pkt register data trigger return_status s =
     send_packet
       ([255, 255, servo_id s, int (length data) + 3, (if trigger then 3 else 4), register]
          @ data @ [0])
       return_status s"

text \<open>The low and the high byte of a word: \<^verbatim>\<open>dword & 0xFF\<close>, \<^verbatim>\<open>(dword >> 8) & 0xFF\<close>.\<close>

definition word_bytes :: "int \<Rightarrow> int list" where
  "word_bytes dword = [dword AND 255, (drop_bit 8 dword) AND 255]"

definition write_n_word_pkt ::
  "int \<Rightarrow> int list \<Rightarrow> bool \<Rightarrow> 'd dynamixel_scheme \<Rightarrow> (exn + unit) \<times> 'd dynamixel_scheme" where
  "write_n_word_pkt register data trigger s =
     write_n_byte_pkt register (concat (map word_bytes data)) trigger False s"

text \<open>\<^verbatim>\<open>_send_sync\<close>.\<close>

definition send_sync :: "int list \<Rightarrow> 'e env_scheme \<Rightarrow> (exn + unit) \<times> 'e env_scheme" where
  "send_sync pkt s =
     (case set_last pkt (check_sum pkt) of
        Inl e \<Rightarrow> (Inl e, s)
      | Inr pkt' \<Rightarrow> serial_write pkt' s)"

text \<open>
  The first loop of \<^verbatim>\<open>_sync_write\<close>. An entry of the batch is the id of its servo object
  and its values (\<^verbatim>\<open>data[0].id\<close> and \<^verbatim>\<open>data[1:]\<close>). After each entry the number of values
  collected so far is tested against the number of ids collected so far.
\<close>

fun collect ::
  "(int \<times> int list) list \<Rightarrow> int list \<Rightarrow> int list \<Rightarrow> 'e env_scheme
     \<Rightarrow> (exn + int list \<times> int list) \<times> 'e env_scheme" where
  "collect [] id_lst data_lst s = (Inr (id_lst, data_lst), s)"
| "collect (d # packet) id_lst data_lst s =
     (let id_lst' = id_lst @ [fst d];
          data_lst' = data_lst @ snd d
      in if length data_lst' mod length id_lst' \<noteq> 0 then raise_exn PacketTypeError s
         else collect packet id_lst' data_lst' s)"

text \<open>
  \<^verbatim>\<open>_sync_write\<close> without its decorator. \<open>data_length\<close> is
  \<^verbatim>\<open>int((len(data_lst) / len(id_lst)) * 2)\<close>: the quotient is exact, since the last test of
  the loop passed, and an empty batch divides by zero.
\<close>

definition sync_write_body ::
  "int \<Rightarrow> (int \<times> int list) list \<Rightarrow> 'e env_scheme \<Rightarrow> (exn + unit option) \<times> 'e env_scheme" where
  "sync_write_body mem_address packet s =
     (case collect packet [] [] s of
        (Inl e, s1) \<Rightarrow> (Inl e, s1)
      | (Inr (id_lst, data_lst), s1) \<Rightarrow>
          if id_lst = [] then (Inl ZeroDivisionError, s1)
          else
            (let data_length = int (length data_lst div length id_lst) * 2;
                 pkt = [255, 255, 254, (data_length + 1) * int (length id_lst) + 4, 131,
                        mem_address, data_length]
                       @ concat (map (\<lambda>param. fst param # concat (map word_bytes (snd param))) packet)
                       @ [0]
             in case send_sync pkt s1 of
                  (Inl e, s2) \<Rightarrow> (Inl e, s2)
                | (Inr _, s2) \<Rightarrow> (Inr None, s2)))"

definition sync_write ::
  "int \<Rightarrow> (int \<times> int list) list \<Rightarrow> 'e env_scheme \<Rightarrow> (exn + unit option) \<times> 'e env_scheme" where
  "sync_write mem_address packet s = decorator_error_handling (sync_write_body mem_address packet s)"

text \<open>\<^verbatim>\<open>ping\<close>, from the template \<^verbatim>\<open>[255, 255, 0, 2, 1, 0]\<close>; the answer is not decoded.\<close>

definition ping :: "int \<Rightarrow> 'e env_scheme \<Rightarrow> (exn + nat list) \<times> 'e env_scheme" where
  "ping i s =
     (case set_last [255, 255, i, 2, 1, 0] (check_sum [255, 255, i, 2, 1, 0]) of
        Inl e \<Rightarrow> (Inl e, s)
      | Inr pkt \<Rightarrow>
          (case serial_write pkt s of
             (Inl e, s1) \<Rightarrow> (Inl e, s1)
           | (Inr _, s1) \<Rightarrow> (let (r, s2) = serial_read 6 s1 in (Inr r, s2))))"

text \<open>The packets an operation handed to the serial line: what \<open>written\<close> gained.\<close>

definition sent :: "'a env_scheme \<Rightarrow> 'b env_scheme \<Rightarrow> int list list" where
  "sent s s' = drop (length (written s)) (written s')"

section \<open>Python floats\<close>

text \<open>
  A Python float is a double. An arithmetic operation on floats gives the exact result
  rounded to a double, so every definition that computes with floats takes the rounding
  \<open>rnd\<close> as a parameter and applies it after each operation; a float literal such as
  \<^verbatim>\<open>0.111\<close> is the rounded decimal, and \<^verbatim>\<open>math.pi\<close> the rounded \<open>\<pi>\<close>. Comparisons,
  \<^verbatim>\<open>int\<close>, \<^verbatim>\<open>math.floor\<close> and the conversion of a small integer to a float are exact.
  What is proved for every \<open>rnd\<close> holds for the rounding of the machine as well.
\<close>

definition math_pi :: "(real \<Rightarrow> real) \<Rightarrow> real" where
  "math_pi rnd = rnd pi"

text \<open>\<^verbatim>\<open>int(x)\<close> of a float drops the fraction, rounding towards zero.\<close>

definition py_int :: "real \<Rightarrow> int" where
  "py_int x = (if x < 0 then \<lceil>x\<rceil> else \<lfloor>x\<rfloor>)"

text \<open>
  The rounding that leaves every number as it is, that is arithmetic without rounding
  error; sample evaluations use it where their result does not hinge on the rounding.
\<close>

definition exact :: "real \<Rightarrow> real" where
  "exact x = x"

section \<open>servo_ax12a.py\<close>

text \<open>The register addresses \<^verbatim>\<open>__GOAL_POSITION\<close> and \<^verbatim>\<open>__MOVING_SPEED\<close>.\<close>

definition GOAL_POSITION :: int where
  "GOAL_POSITION = 30"

definition MOVING_SPEED :: int where
  "MOVING_SPEED = 32"

text \<open>The integer constants of the servo, as the floats they become in a float operation.\<close>

definition ANGLE_MAX_TICKS :: real where
  "ANGLE_MAX_TICKS = 1023"

definition ANGLE_MAX_DEGREE :: real where
  "ANGLE_MAX_DEGREE = 300"

definition ANGLE_MIN_DEGREE :: real where
  "ANGLE_MIN_DEGREE = 0"

definition LIMITED_MAX_RPM :: real where
  "LIMITED_MAX_RPM = 80"

text \<open>\<^verbatim>\<open>_SPEED_MAX_RPM = 1023 * 0.111\<close>.\<close>

definition SPEED_MAX_RPM :: "(real \<Rightarrow> real) \<Rightarrow> real" where
  "SPEED_MAX_RPM rnd = rnd (1023 * rnd 0.111)"

text \<open>\<^verbatim>\<open>_LIMITED_MAX_TICKS = int((_ANGLE_MAX_TICKS / _SPEED_MAX_RPM) * _LIMITED_MAX_RPM)\<close>.\<close>

definition LIMITED_MAX_TICKS :: "(real \<Rightarrow> real) \<Rightarrow> int" where
  "LIMITED_MAX_TICKS rnd =
     py_int (rnd (rnd (ANGLE_MAX_TICKS / SPEED_MAX_RPM rnd) * LIMITED_MAX_RPM))"

text \<open>\<^verbatim>\<open>_LIMITED_PERC_UNIT = _LIMITED_MAX_TICKS / 100\<close>.\<close>

definition LIMITED_PERC_UNIT :: "(real \<Rightarrow> real) \<Rightarrow> real" where
  "LIMITED_PERC_UNIT rnd = rnd (real_of_int (LIMITED_MAX_TICKS rnd) / 100)"

text \<open>\<^verbatim>\<open>ServoAx12a.set_goal_position\<close> and \<^verbatim>\<open>ServoAx12a.set_goal_pos_speed\<close>.\<close>

definition servo_set_goal_position ::
  "int \<Rightarrow> bool \<Rightarrow> 'd dynamixel_scheme \<Rightarrow> (exn + unit) \<times> 'd dynamixel_scheme" where
  "servo_set_goal_position position trigger s = write_n_word_pkt GOAL_POSITION [position] trigger s"

definition set_goal_pos_speed ::
  "int \<Rightarrow> int \<Rightarrow> bool \<Rightarrow> 'd dynamixel_scheme \<Rightarrow> (exn + unit) \<times> 'd dynamixel_scheme" where
  "set_goal_pos_speed position speed trigger s =
     (case write_n_word_pkt GOAL_POSITION [position] trigger s of
        (Inl e, s1) \<Rightarrow> (Inl e, s1)
      | (Inr _, s1) \<Rightarrow> write_n_word_pkt MOVING_SPEED [speed] trigger s1)"

section \<open>joint_drive.py\<close>

text \<open>
  \<^verbatim>\<open>_ANGLE_RADIAN_ZERO = (_ANGLE_MAX_DEGREE - _ANGLE_MIN_DEGREE) * math.pi / 360\<close>; the
  difference of the two integers is exact.
\<close>

definition ANGLE_RADIAN_ZERO :: "(real \<Rightarrow> real) \<Rightarrow> real" where
  "ANGLE_RADIAN_ZERO rnd = rnd (rnd ((ANGLE_MAX_DEGREE - ANGLE_MIN_DEGREE) * math_pi rnd) / 360)"

text \<open>
  \<^verbatim>\<open>_ANGLE_UNIT\<close>, the ticks per radian:
  \<^verbatim>\<open>_ANGLE_MAX_TICKS / ((_ANGLE_MAX_DEGREE - _ANGLE_MIN_DEGREE) * math.pi * 2 / 360)\<close>.
\<close>

definition ANGLE_UNIT :: "(real \<Rightarrow> real) \<Rightarrow> real" where
  "ANGLE_UNIT rnd =
     rnd (ANGLE_MAX_TICKS /
          rnd (rnd (rnd ((ANGLE_MAX_DEGREE - ANGLE_MIN_DEGREE) * math_pi rnd) * 2) / 360))"

definition convert_angle_to_ticks :: "(real \<Rightarrow> real) \<Rightarrow> real \<Rightarrow> bool \<Rightarrow> real \<Rightarrow> int" where
  "convert_angle_to_ticks rnd angle ccw' offset =
     (let angle' = rnd (angle + offset);
          ticks = py_int (rnd (angle' * ANGLE_UNIT rnd))
      in if ccw' then 1023 - 1 - ticks else ticks)"

definition convert_ticks_to_angle :: "(real \<Rightarrow> real) \<Rightarrow> int \<Rightarrow> bool \<Rightarrow> real \<Rightarrow> real" where
  "convert_ticks_to_angle rnd ticks ccw' offset =
     (let ticks' = (if ccw' then 1023 - ticks else ticks);
          angle = rnd (real_of_int ticks' / ANGLE_UNIT rnd)
      in rnd (angle - offset))"

text \<open>\<^verbatim>\<open>numpy.clip(x, lo, hi)\<close>.\<close>

definition clip :: "real \<Rightarrow> real \<Rightarrow> real \<Rightarrow> real" where
  "clip x lo hi = min (max x lo) hi"

definition convert_percent_speed_to_ticks :: "(real \<Rightarrow> real) \<Rightarrow> real \<Rightarrow> int" where
  "convert_percent_speed_to_ticks rnd perc = \<lfloor>rnd (clip perc 0 100 * LIMITED_PERC_UNIT rnd)\<rfloor>"

definition get_saved_goal_position :: "joint_drive \<Rightarrow> real" where
  "get_saved_goal_position j = savedgoalposition j"

text \<open>\<^verbatim>\<open>print(...)\<close>.\<close>

definition print :: "notice \<Rightarrow> 'e env_scheme \<Rightarrow> 'e env_scheme" where
  "print m s = s\<lparr>console := console s @ [m]\<rparr>"

text \<open>
  \<^verbatim>\<open>JointDrive.set_goal_position\<close> without its decorator. Its first statement,
  \<^verbatim>\<open>savedgoalposition = angle\<close>, binds a local variable of the call and touches no
  attribute of the object, so it has no counterpart here.
\<close>

definition set_goal_position_body ::
  "(real \<Rightarrow> real) \<Rightarrow> real \<Rightarrow> bool \<Rightarrow> joint_drive \<Rightarrow> (exn + bool option) \<times> joint_drive" where
  "set_goal_position_body rnd angle trigger j =
     (if angle > rnd (a_max j - a_offset j) then (Inr (Some True), print Angle_zu_gross j)
      else if angle < rnd (a_min j - a_offset j) then (Inr (Some True), print Angle_zu_klein j)
      else
        (let ticks = convert_angle_to_ticks rnd angle (ccw j) (a_offset j)
         in case servo_set_goal_position ticks trigger j of
              (Inl e, j1) \<Rightarrow> (Inl e, j1)
            | (Inr _, j1) \<Rightarrow> (Inr None, j1)))"

definition set_goal_position ::
  "(real \<Rightarrow> real) \<Rightarrow> real \<Rightarrow> bool \<Rightarrow> joint_drive \<Rightarrow> (exn + bool option) \<times> joint_drive" where
  "set_goal_position rnd angle trigger j =
     decorator_error_handling (set_goal_position_body rnd angle trigger j)"

text \<open>
  \<^verbatim>\<open>JointDrive.set_desired_angle_speed\<close> without its decorator; here the first statement
  is \<^verbatim>\<open>self.savedgoalposition = angle\<close>.
\<close>

definition set_desired_angle_speed_body ::
  "(real \<Rightarrow> real) \<Rightarrow> real \<Rightarrow> real \<Rightarrow> bool \<Rightarrow> joint_drive
     \<Rightarrow> (exn + bool option) \<times> joint_drive" where
  "set_desired_angle_speed_body rnd angle speed trigger j =
     (let j0 = j\<lparr>savedgoalposition := angle\<rparr>
      in if angle > rnd (a_max j0 - a_offset j0) then (Inr (Some True), print Angle_zu_gross j0)
         else if angle < rnd (a_min j0 - a_offset j0)
           then (Inr (Some True), print Angle_zu_klein j0)
         else if speed > SPEED_MAX_RPM rnd \<or> speed < 0
           then (Inr (Some True), print Invalid_speed_value j0)
         else
           (let angle_ticks = convert_angle_to_ticks rnd angle (ccw j0) (a_offset j0);
                speed_ticks = convert_percent_speed_to_ticks rnd speed
            in case set_goal_pos_speed angle_ticks speed_ticks trigger j0 of
                 (Inl e, j1) \<Rightarrow> (Inl e, j1)
               | (Inr _, j1) \<Rightarrow> (Inr None, j1)))"

definition set_desired_angle_speed ::
  "(real \<Rightarrow> real) \<Rightarrow> real \<Rightarrow> real \<Rightarrow> bool \<Rightarrow> joint_drive
     \<Rightarrow> (exn + bool option) \<times> joint_drive" where
  "set_desired_angle_speed rnd angle speed trigger j =
     decorator_error_handling (set_desired_angle_speed_body rnd angle speed trigger j)"

section \<open>Sample objects\<close>

text \<open>
  A \<^verbatim>\<open>Dynamixel\<close> object for servo 1 as its constructor leaves it, on a line that will
  answer the next read with a status packet without error.
\<close>

definition servo1 :: dynamixel where
  "servo1 = \<lparr>written = [], rx = [[255, 255, 1, 2, 0, 252]], debug_log = [], console = [],
             servo_id = 1, return_level = 2, err = 0\<rparr>"

text \<open>
  The attributes of \<^verbatim>\<open>JointDrive(1)\<close>: the limits default to \<^verbatim>\<open>0\<close> and
  \<^verbatim>\<open>300*(2*math.pi/360)\<close>, and the offset is \<^verbatim>\<open>_ANGLE_RADIAN_ZERO + 0.0\<close>.
\<close>

definition joint1 :: "(real \<Rightarrow> real) \<Rightarrow> joint_drive" where
  "joint1 rnd =
     \<lparr>written = [], rx = [[255, 255, 1, 2, 0, 252]], debug_log = [], console = [],
      servo_id = 1, return_level = 2, err = 0,
      ccw = False, a_offset = rnd (ANGLE_RADIAN_ZERO rnd + 0),
      a_max = rnd (300 * rnd (rnd (2 * math_pi rnd) / 360)),
      a_min = 0, savedgoalposition = 0\<rparr>"

section \<open>The checksum of outbound packets\<close>

text \<open>\<^verbatim>\<open>(~s) & 0xFF\<close> in arithmetic.\<close>

lemma not_and_255: "(NOT k) AND 255 = 255 - k mod (256::int)"
proof -
  have "(NOT k) AND 255 = take_bit 8 (NOT k)"
    by (simp add: take_bit_eq_mask mask_eq_exp_minus_1)
  also have "\<dots> = (- k - 1) mod 256"
    by (simp add: take_bit_eq_mod not_int_def)
  finally have step: "(NOT k) AND 255 = (- k - 1) mod 256" .
  have "- k - 1 = (255 - k mod 256) + 256 * (- (k div 256) - 1)"
    using div_mult_mod_eq [of k 256] by (simp add: algebra_simps)
  then have "(- k - 1) mod 256 = (255 - k mod 256) mod 256"
    by (metis mod_mult_self2)
  moreover have "0 \<le> 255 - k mod 256" "255 - k mod 256 < 256"
    using pos_mod_bound [of 256 k] pos_mod_sign [of 256 k] by linarith+
  ultimately show ?thesis using step by simp
qed

lemma check_sum_arith: "check_sum pkt = 255 - sum_list (butlast (drop 2 pkt)) mod 256"
  by (simp add: check_sum_def not_and_255)

lemma slice_set_last: "pkt \<noteq> [] \<Longrightarrow> butlast (drop 2 (butlast pkt @ [v])) = butlast (drop 2 pkt)"
proof (cases "length pkt \<le> 2")
  case True
  then show ?thesis by simp
next
  case False
  assume "pkt \<noteq> []"
  from False have "drop 2 (butlast pkt @ [v]) = drop 2 (butlast pkt) @ [v]" by simp
  then show ?thesis by (simp add: butlast_drop)
qed

lemma check_sum_set_last: "pkt \<noteq> [] \<Longrightarrow> check_sum (butlast pkt @ [v]) = check_sum pkt"
proof -
  assume "pkt \<noteq> []"
  then have "butlast (drop 2 (butlast pkt @ [v])) = butlast (drop 2 pkt)"
    by (rule slice_set_last)
  then show ?thesis unfolding check_sum_def by (simp only:)
qed

lemma written_raise_exn [simp]: "written (snd (raise_exn e s)) = written s"
  by (simp add: raise_exn_def)

lemma written_scan_bits [simp]: "written (snd (scan_bits bs c s)) = written s"
  by (induction bs arbitrary: c) auto

lemma written_decorator [simp]: "written (snd (decorator_error_handling r)) = written (snd r)"
  by (auto simp: decorator_error_handling_def split: prod.splits sum.splits)

lemma written_log_excep [simp]: "written (snd (log_excep e s)) = written s"
  by (simp add: log_excep_def log_excep_body_def)

lemma written_serial_read [simp]: "written (snd (serial_read n s)) = written s"
  by (simp add: serial_read_def split: list.splits)

lemma written_read_status_pkt [simp]: "written (snd (read_status_pkt n s)) = written s"
proof -
  obtain sp s1 where sr: "serial_read n s = (sp, s1)" by (cases "serial_read n s")
  then have w1: "written s1 = written s"
    using written_serial_read [of n s] by simp
  define s2 where "s2 = (if length sp \<ge> 6 then s1\<lparr>err := sp ! 4\<rparr> else s1)"
  have w2: "written s2 = written s" by (simp add: s2_def w1)
  obtain r s3 where le: "log_excep (err s2) s2 = (r, s3)" by (cases "log_excep (err s2) s2")
  then have w3: "written s3 = written s"
    using written_log_excep [of "err s2" s2] w2 by simp
  show ?thesis
    using sr le w3 unfolding read_status_pkt_def s2_def [symmetric] Let_def
    by (simp add: s2_def [symmetric] split: sum.splits)
qed

lemma written_serial_write:
  "written (snd (serial_write pkt s)) = (if bytearray_ok pkt then written s @ [pkt] else written s)"
  by (simp add: serial_write_def)

lemma written_send_packet:
  "written (snd (send_packet pkt rp s)) =
     (if pkt \<noteq> [] \<and> bytearray_ok (butlast pkt @ [check_sum pkt])
      then written s @ [butlast pkt @ [check_sum pkt]] else written s)"
proof (cases "pkt = []")
  case True
  then show ?thesis by (simp add: send_packet_def set_last_def)
next
  case False
  let ?p = "butlast pkt @ [check_sum pkt]"
  obtain r s1 where sw: "serial_write ?p s = (r, s1)" by (cases "serial_write ?p s")
  then have w1: "written s1 = (if bytearray_ok ?p then written s @ [?p] else written s)"
    using written_serial_write [of ?p s] by simp
  have r: "(\<exists>e. r = Inl e) \<longleftrightarrow> \<not> bytearray_ok ?p"
    using sw by (auto simp: serial_write_def split: if_splits)
  obtain r2 s2 where rs: "read_status_pkt 6 s1 = (r2, s2)" by (cases "read_status_pkt 6 s1")
  then have w2: "written s2 = written s1"
    using written_read_status_pkt [of 6 s1] by simp
  show ?thesis
    using False sw rs w1 w2 r
    by (auto simp: send_packet_def set_last_def split: sum.splits)
qed

lemma sent_append [simp]: "written s' = written s @ ps \<Longrightarrow> sent s s' = ps"
  by (simp add: sent_def)

lemma sent_same [simp]: "written s' = written s \<Longrightarrow> sent s s' = []"
  by (simp add: sent_def)

lemma sent_send_packet:
  "p \<in> set (sent s (snd (send_packet pkt rp s))) \<Longrightarrow> last p = check_sum p"
proof -
  assume a: "p \<in> set (sent s (snd (send_packet pkt rp s)))"
  show ?thesis
  proof (cases "pkt \<noteq> [] \<and> bytearray_ok (butlast pkt @ [check_sum pkt])")
    case True
    then have "written (snd (send_packet pkt rp s)) = written s @ [butlast pkt @ [check_sum pkt]]"
      by (simp add: written_send_packet)
    then have "p = butlast pkt @ [check_sum pkt]" using a by simp
    then show ?thesis using True by (simp add: check_sum_set_last)
  next
    case False
    then have "written (snd (send_packet pkt rp s)) = written s"
      by (simp add: written_send_packet)
    then show ?thesis using a by simp
  qed
qed

lemma written_collect [simp]: "written (snd (collect packet il dl s)) = written s"
  by (induction packet arbitrary: il dl) (auto simp: Let_def)

lemma written_send_sync:
  "written (snd (send_sync pkt s)) =
     (if pkt \<noteq> [] \<and> bytearray_ok (butlast pkt @ [check_sum pkt])
      then written s @ [butlast pkt @ [check_sum pkt]] else written s)"
  by (simp add: send_sync_def set_last_def written_serial_write)

lemma sent_send_sync:
  "p \<in> set (sent s (snd (send_sync pkt s))) \<Longrightarrow> last p = check_sum p"
proof -
  assume a: "p \<in> set (sent s (snd (send_sync pkt s)))"
  show ?thesis
  proof (cases "pkt \<noteq> [] \<and> bytearray_ok (butlast pkt @ [check_sum pkt])")
    case True
    then have "written (snd (send_sync pkt s)) = written s @ [butlast pkt @ [check_sum pkt]]"
      by (simp add: written_send_sync)
    then have "p = butlast pkt @ [check_sum pkt]" using a by simp
    then show ?thesis using True by (simp add: check_sum_set_last)
  next
    case False
    then have "written (snd (send_sync pkt s)) = written s"
      by (simp add: written_send_sync)
    then show ?thesis using a by simp
  qed
qed

lemma sent_sync_write_body:
  "p \<in> set (sent s (snd (sync_write_body m packet s))) \<Longrightarrow> last p = check_sum p"
proof -
  assume a: "p \<in> set (sent s (snd (sync_write_body m packet s)))"
  obtain r s1 where c: "collect packet [] [] s = (r, s1)" by (cases "collect packet [] [] s")
  then have w1: "written s1 = written s" using written_collect [of packet "[]" "[]" s] by simp
  show ?thesis
  proof (cases r)
    case (Inl e)
    then have "snd (sync_write_body m packet s) = s1" using c by (simp add: sync_write_body_def)
    then show ?thesis using a w1 by simp
  next
    case (Inr q)
    obtain il dl where q: "q = (il, dl)" by (cases q)
    show ?thesis
    proof (cases "il = []")
      case True
      then have "snd (sync_write_body m packet s) = s1"
        using c Inr q by (simp add: sync_write_body_def)
      then show ?thesis using a w1 by simp
    next
      case False
      define pkt where "pkt = [255, 255, 254,
          (int (length dl div length il) * 2 + 1) * int (length il) + 4, 131, m,
          int (length dl div length il) * 2]
          @ concat (map (\<lambda>param. fst param # concat (map word_bytes (snd param))) packet) @ [0]"
      have "sync_write_body m packet s =
          (case send_sync pkt s1 of (Inl e, s2) \<Rightarrow> (Inl e, s2) | (Inr _, s2) \<Rightarrow> (Inr None, s2))"
        using c Inr q False by (simp add: sync_write_body_def Let_def pkt_def)
      then have "snd (sync_write_body m packet s) = snd (send_sync pkt s1)"
        by (simp split: prod.splits sum.splits)
      moreover have "sent s (snd (send_sync pkt s1)) = sent s1 (snd (send_sync pkt s1))"
        by (simp add: sent_def w1)
      ultimately show ?thesis using a sent_send_sync [of p s1 pkt] by simp
    qed
  qed
qed

lemma sent_decorator [simp]: "sent s (snd (decorator_error_handling r)) = sent s (snd r)"
  by (simp add: sent_def)

lemma sent_ping: "p \<in> set (sent s (snd (ping i s))) \<Longrightarrow> last p = check_sum p"
proof -
  assume a: "p \<in> set (sent s (snd (ping i s)))"
  let ?p = "[255, 255, i, 2, 1, check_sum [255, 255, i, 2, 1, 0]]"
  have w: "written (snd (ping i s)) = (if bytearray_ok ?p then written s @ [?p] else written s)"
    by (auto simp: ping_def set_last_def serial_write_def serial_read_def Let_def
        split: prod.splits sum.splits list.splits)
  have cs: "check_sum ?p = check_sum [255, 255, i, 2, 1, 0]"
    using check_sum_set_last [of "[255, 255, i, 2, 1, 0]" "check_sum [255, 255, i, 2, 1, 0]"] by simp
  show ?thesis
  proof (cases "bytearray_ok ?p")
    case True
    then have "p = ?p" using a w by simp
    then show ?thesis using cs by simp
  next
    case False
    then show ?thesis using a w by simp
  qed
qed

lemma written_request_n_byte:
  "written (snd (request_n_byte register dt_len d)) =
   written (snd (send_packet [255, 255, servo_id d, 4, 2, register, dt_len, 0] True d))"
proof -
  let ?w = "send_packet [255, 255, servo_id d, 4, 2, register, dt_len, 0] True d"
  obtain r s1 where w: "?w = (r, s1)" by (cases ?w)
  obtain r2 s2 where rs: "read_status_pkt (nat (6 + dt_len)) s1 = (r2, s2)"
    by (cases "read_status_pkt (nat (6 + dt_len)) s1")
  then have "written s2 = written s1"
    using written_read_status_pkt [of "nat (6 + dt_len)" s1] by simp
  then show ?thesis
    using w rs by (simp add: request_n_byte_def write_read_data_pkt_def split: sum.splits)
qed

text \<open>
  Claim C1. Every packet that ping, action, a register read, a register write (of bytes or of
  words) or a sync-write hands to the serial line ends in the checksum of its own bytes:
  the last byte is \<^verbatim>\<open>(~sum(pkt[2:-1])) & 0xFF\<close>, the complement to 255 of the sum, modulo
  256, of the bytes from the id byte (index 2) to the last parameter.
\<close>

theorem outbound_checksum:
  "(\<forall>p \<in> set (sent s (snd (ping i s))). last p = check_sum p) \<and>
   (\<forall>p \<in> set (sent d (snd (action d))). last p = check_sum p) \<and>
   (\<forall>p \<in> set (sent d (snd (request_n_byte register dt_len d))). last p = check_sum p) \<and>
   (\<forall>p \<in> set (sent d (snd (write_n_byte_pkt register data trigger rs d))). last p = check_sum p) \<and>
   (\<forall>p \<in> set (sent d (snd (write_n_word_pkt register wdata trigger d))). last p = check_sum p) \<and>
   (\<forall>p \<in> set (sent s (snd (sync_write mem_address packet s))). last p = check_sum p) \<and>
   (\<forall>p. check_sum p = 255 - sum_list (butlast (drop 2 p)) mod 256)"
proof (intro conjI ballI allI)
  fix p assume "p \<in> set (sent s (snd (ping i s)))"
  then show "last p = check_sum p" by (rule sent_ping)
next
  fix p assume "p \<in> set (sent d (snd (action d)))"
  then show "last p = check_sum p"
    unfolding action_def do_action_def by (rule sent_send_packet)
next
  fix p assume "p \<in> set (sent d (snd (request_n_byte register dt_len d)))"
  then have "p \<in> set (sent d (snd (send_packet [255, 255, servo_id d, 4, 2, register, dt_len, 0] True d)))"
    by (simp add: sent_def written_request_n_byte)
  then show "last p = check_sum p" by (rule sent_send_packet)
next
  fix p assume "p \<in> set (sent d (snd (write_n_byte_pkt register data trigger rs d)))"
  then show "last p = check_sum p"
    unfolding write_n_byte_pkt_def by (rule sent_send_packet)
next
  fix p assume "p \<in> set (sent d (snd (write_n_word_pkt register wdata trigger d)))"
  then show "last p = check_sum p"
    unfolding write_n_word_pkt_def write_n_byte_pkt_def by (rule sent_send_packet)
next
  fix p assume "p \<in> set (sent s (snd (sync_write mem_address packet s)))"
  then have "p \<in> set (sent s (snd (sync_write_body mem_address packet s)))"
    by (simp add: sync_write_def)
  then show "last p = check_sum p" by (rule sent_sync_write_body)
next
  fix p show "check_sum p = 255 - sum_list (butlast (drop 2 p)) mod 256"
    by (rule check_sum_arith)
qed

theorem outbound_checksum_witness:
  "sent servo1 (snd (ping 1 servo1)) = [[255, 255, 1, 2, 1, 251]] \<and>
   last [255, 255, 1, 2, 1, 251] = check_sum [255, 255, 1, 2, 1, 251] \<and>
   sent servo1 (snd (action servo1)) = [[255, 255, 1, 2, 5, 247]] \<and>
   last [255, 255, 1, 2, 5, 247] = check_sum [255, 255, 1, 2, 5, 247] \<and>
   sent servo1 (snd (request_n_byte 36 2 servo1)) = [[255, 255, 1, 4, 2, 36, 2, 210]] \<and>
   last [255, 255, 1, 4, 2, 36, 2, 210] = check_sum [255, 255, 1, 4, 2, 36, 2, 210] \<and>
   sent servo1 (snd (write_n_byte_pkt 5 [10] True False servo1)) = [[255, 255, 1, 4, 3, 5, 10, 232]] \<and>
   last [255, 255, 1, 4, 3, 5, 10, 232] = check_sum [255, 255, 1, 4, 3, 5, 10, 232] \<and>
   sent servo1 (snd (write_n_word_pkt 30 [512] True servo1)) = [[255, 255, 1, 5, 3, 30, 0, 2, 214]] \<and>
   last [255, 255, 1, 5, 3, 30, 0, 2, 214] = check_sum [255, 255, 1, 5, 3, 30, 0, 2, 214] \<and>
   sent servo1 (snd (sync_write 30 [(1, [512, 100]), (2, [300, 50])] servo1))
     = [[255, 255, 254, 14, 131, 30, 4, 1, 0, 2, 100, 0, 2, 44, 1, 50, 0, 134]] \<and>
   last [255, 255, 254, 14, 131, 30, 4, 1, 0, 2, 100, 0, 2, 44, 1, 50, 0, 134]
     = check_sum [255, 255, 254, 14, 131, 30, 4, 1, 0, 2, 100, 0, 2, 44, 1, 50, 0, 134]"
proof -
  note oc = outbound_checksum [where s = servo1 and i = 1 and d = servo1 and register = 36
      and dt_len = 2, of "[10]" True False "[512]" 30 "[(1, [512, 100]), (2, [300, 50])]"]
  have e1: "sent servo1 (snd (ping 1 servo1)) = [[255, 255, 1, 2, 1, 251]]" by code_simp
  have e2: "sent servo1 (snd (action servo1)) = [[255, 255, 1, 2, 5, 247]]" by code_simp
  have e3: "sent servo1 (snd (request_n_byte 36 2 servo1)) = [[255, 255, 1, 4, 2, 36, 2, 210]]"
    by code_simp
  have e4: "sent servo1 (snd (write_n_byte_pkt 5 [10] True False servo1))
      = [[255, 255, 1, 4, 3, 5, 10, 232]]"
    by code_simp
  have e5: "sent servo1 (snd (write_n_word_pkt 30 [512] True servo1))
      = [[255, 255, 1, 5, 3, 30, 0, 2, 214]]"
    by code_simp
  have e6: "sent servo1 (snd (sync_write 30 [(1, [512, 100]), (2, [300, 50])] servo1))
      = [[255, 255, 254, 14, 131, 30, 4, 1, 0, 2, 100, 0, 2, 44, 1, 50, 0, 134]]"
    by code_simp
  have c1: "last [255, 255, 1, 2, 1, 251] = check_sum [255, 255, 1, 2, 1, 251]"
    using oc e1 by simp
  have c2: "last [255, 255, 1, 2, 5, 247] = check_sum [255, 255, 1, 2, 5, 247]"
    using oc e2 by simp
  have c3: "last [255, 255, 1, 4, 2, 36, 2, 210] = check_sum [255, 255, 1, 4, 2, 36, 2, 210]"
    using oc e3 by simp
  have c4: "last [255, 255, 1, 4, 3, 5, 10, 232] = check_sum [255, 255, 1, 4, 3, 5, 10, 232]"
    using oc e4 by simp
  have c5: "last [255, 255, 1, 5, 3, 30, 0, 2, 214] = check_sum [255, 255, 1, 5, 3, 30, 0, 2, 214]"
    using oc e5 by simp
  have c6: "last [255, 255, 254, 14, 131, 30, 4, 1, 0, 2, 100, 0, 2, 44, 1, 50, 0, 134]
      = check_sum [255, 255, 254, 14, 131, 30, 4, 1, 0, 2, 100, 0, 2, 44, 1, 50, 0, 134]"
    using oc e6 by simp
  from e1 c1 e2 c2 e3 c3 e4 c4 e5 c5 e6 c6 show ?thesis by (intro conjI)
qed

section \<open>Reading status packets and registers\<close>

lemma decorator_returns: "\<exists>v. fst (decorator_error_handling r) = Inr v"
  by (auto simp: decorator_error_handling_def split: prod.splits sum.splits)

lemma log_excep_returns: "\<exists>v. fst (log_excep e s) = Inr v"
  unfolding log_excep_def by (rule decorator_returns)

lemma read_status_pkt_eq:
  "read_status_pkt n s =
     (let sp = fst (serial_read n s);
          e = (if 6 \<le> length sp then sp ! 4 else err s)
      in (Inr sp, snd (log_excep e (s\<lparr>rx := tl (rx s), err := e\<rparr>))))"
proof -
  define sp where "sp = fst (serial_read n s)"
  define e where "e = (if 6 \<le> length sp then sp ! 4 else err s)"
  define s2 where "s2 = s\<lparr>rx := tl (rx s), err := e\<rparr>"
  have sr: "serial_read n s = (sp, s\<lparr>rx := tl (rx s)\<rparr>)"
    by (cases "rx s") (simp_all add: serial_read_def sp_def)
  obtain v where v: "fst (log_excep e s2) = Inr v"
    using log_excep_returns by blast
  have c: "(case log_excep e s2 of (Inl x, s3) \<Rightarrow> (Inl x, s3) | (Inr _, s3) \<Rightarrow> (Inr sp, s3))
      = (Inr sp, snd (log_excep e s2))"
    using v by (cases "log_excep e s2") auto
  have "read_status_pkt n s
      = (case log_excep e s2 of (Inl x, s3) \<Rightarrow> (Inl x, s3) | (Inr _, s3) \<Rightarrow> (Inr sp, s3))"
  proof (cases "6 \<le> length sp")
    case True
    then show ?thesis
      using sr by (simp add: read_status_pkt_def e_def s2_def)
  next
    case False
    then have "e = err s" by (simp add: e_def)
    then have "s2 = s\<lparr>rx := tl (rx s)\<rparr>" by (simp add: s2_def)
    then show ?thesis
      using False sr \<open>e = err s\<close> by (simp add: read_status_pkt_def)
  qed
  then have "read_status_pkt n s = (Inr sp, snd (log_excep e s2))"
    using c by simp
  then show ?thesis by (simp add: Let_def sp_def e_def s2_def)
qed

lemma check_sum_range: "0 \<le> check_sum p \<and> check_sum p < 256"
proof -
  have "0 \<le> sum_list (butlast (drop 2 p)) mod 256" "sum_list (butlast (drop 2 p)) mod 256 < 256"
    by simp_all
  then show ?thesis unfolding check_sum_arith by linarith
qed

lemma fst_serial_read_written:
  "fst (serial_read n (s\<lparr>written := w\<rparr>)) = fst (serial_read n s)"
  by (simp add: serial_read_def split: list.splits)

lemma fst_serial_read_return_level:
  "fst (serial_read n (s\<lparr>return_level := l\<rparr>)) = fst (serial_read n s)"
  by (simp add: serial_read_def split: list.splits)

section \<open>What the decoder and the status reader leave in the object\<close>

lemma err_raise_exn [simp]: "err (snd (raise_exn e s)) = err s"
  by (simp add: raise_exn_def)

lemma err_scan_bits [simp]: "err (snd (scan_bits bs c s)) = err s"
  by (induction bs arbitrary: c) auto

lemma err_decorator [simp]: "err (snd (decorator_error_handling r)) = err (snd r)"
  by (auto simp: decorator_error_handling_def split: prod.splits sum.splits)

lemma err_log_excep [simp]: "err (snd (log_excep e s)) = err s"
  by (simp add: log_excep_def log_excep_body_def)

lemma fst_serial_read: "fst (serial_read n s) = (case rx s of [] \<Rightarrow> [] | c # cs \<Rightarrow> take n c)"
  by (simp add: serial_read_def split: list.splits)

text \<open>
  Claim C4, as amended. Reading a status packet checks nothing: whatever bytes the line
  delivers (at most the number asked for) are returned as they came, with no test of the
  two header bytes, of the length field or of the checksum, and no frame error exists.
  The one byte looked at is byte 4, stored as the last error when at least 6 bytes came.
\<close>

theorem status_packet_not_validated:
  "fst (read_status_pkt n d) = Inr (case rx d of [] \<Rightarrow> [] | c # cs \<Rightarrow> take n c) \<and>
   err (snd (read_status_pkt n d))
     = (if 6 \<le> length (fst (serial_read n d)) then fst (serial_read n d) ! 4 else err d)"
  by (simp add: read_status_pkt_eq Let_def fst_serial_read)

theorem status_packet_not_validated_witness:
  "fst (read_status_pkt 8 (servo1\<lparr>rx := [[255, 255, 1, 4, 0, 33, 0, 218]]\<rparr>))
     = Inr [255, 255, 1, 4, 0, 33, 0, 218]"
  using status_packet_not_validated [of 8 "servo1\<lparr>rx := [[255, 255, 1, 4, 0, 33, 0, 218]]\<rparr>"]
  by simp

text \<open>
  The status packet \<^verbatim>\<open>FF FF 01 04 00 20 00 DA\<close> is well formed (its checksum is right).
  With the payload byte \<open>20\<close> changed to \<open>21\<close>, with the header zeroed, or with the length
  field changed to 9, it is still returned without an error, and a register read returns
  the changed payload.
\<close>

theorem status_packet_not_validated_counterexample:
  "check_sum [255, 255, 1, 4, 0, 32, 0, 218] = 218 \<and>
   fst (read_status_pkt 8 (servo1\<lparr>rx := [[255, 255, 1, 4, 0, 33, 0, 218]]\<rparr>))
     = Inr [255, 255, 1, 4, 0, 33, 0, 218] \<and>
   fst (read_status_pkt 8 (servo1\<lparr>rx := [[0, 0, 1, 4, 0, 32, 0, 218]]\<rparr>))
     = Inr [0, 0, 1, 4, 0, 32, 0, 218] \<and>
   fst (read_status_pkt 8 (servo1\<lparr>rx := [[255, 255, 1, 9, 0, 32, 0, 218]]\<rparr>))
     = Inr [255, 255, 1, 9, 0, 32, 0, 218] \<and>
   fst (request_n_byte 36 2 (servo1\<lparr>rx := [[255, 255, 1, 4, 0, 33, 0, 218]]\<rparr>)) = Inr [33, 0]"
  by code_simp

section \<open>The error decoder at concrete error bytes\<close>

text \<open>
  Claim C2 at the error byte \<open>0b00000101\<close>: the decoder raises the input-voltage fault
  for bit 0, which ends the loop; the overheating fault of bit 2 is neither raised nor
  logged, and the decorator turns the raised fault into a normal return.
\<close>

theorem log_excep_0b101:
  "fst (log_excep_body 5 servo1) = Inl InputVoltageError \<and>
   debug_log (snd (log_excep_body 5 servo1)) = [InputVoltageError] \<and>
   fst (log_excep 5 servo1) = Inr None \<and>
   debug_log (snd (log_excep 5 servo1)) = [InputVoltageError] \<and>
   console (snd (log_excep 5 servo1)) = [Error_occured, Check_log_file]"
  by code_simp

text \<open>
  Claim C9 on a line that answers a first read with the status packet
  \<^verbatim>\<open>FF FF 01 02 01 FB\<close> (error byte 1) and a second read with nothing: the first read
  stores and decodes the error; the second read, which gets no byte, leaves the stored
  error as it is and decodes it again, so the input-voltage fault of the first exchange is
  raised and logged a second time.
\<close>

theorem short_read_decodes_stale_error:
  "fst (read_status_pkt 6 (servo1\<lparr>rx := [[255, 255, 1, 2, 1, 251], []]\<rparr>))
     = Inr [255, 255, 1, 2, 1, 251] \<and>
   err (snd (read_status_pkt 6 (servo1\<lparr>rx := [[255, 255, 1, 2, 1, 251], []]\<rparr>))) = 1 \<and>
   debug_log (snd (read_status_pkt 6 (servo1\<lparr>rx := [[255, 255, 1, 2, 1, 251], []]\<rparr>)))
     = [InputVoltageError] \<and>
   fst (read_status_pkt 6 (snd (read_status_pkt 6 (servo1\<lparr>rx := [[255, 255, 1, 2, 1, 251], []]\<rparr>))))
     = Inr [] \<and>
   err (snd (read_status_pkt 6 (snd (read_status_pkt 6 (servo1\<lparr>rx := [[255, 255, 1, 2, 1, 251], []]\<rparr>)))))
     = 1 \<and>
   debug_log (snd (read_status_pkt 6 (snd (read_status_pkt 6 (servo1\<lparr>rx := [[255, 255, 1, 2, 1, 251], []]\<rparr>)))))
     = [InputVoltageError, InputVoltageError] \<and>
   console (snd (read_status_pkt 6 (snd (read_status_pkt 6 (servo1\<lparr>rx := [[255, 255, 1, 2, 1, 251], []]\<rparr>)))))
     = [Error_occured, Check_log_file, Error_occured, Check_log_file]"
  by code_simp

section \<open>The length test of the sync-write at concrete batches\<close>

text \<open>
  Claim C6 on a batch whose first entry has 1 value and whose second has 3: after the
  second entry 4 values stand against 2 ids, the test \<open>4 mod 2 \<noteq> 0\<close> fails to see the
  difference, and one 18-byte packet is written. A batch of 2 and 3 values is rejected
  before anything is written.
\<close>

theorem sync_write_1_and_3:
  "fst (sync_write_body 30 [(1, [10]), (2, [1, 2, 3])] servo1) = Inr None \<and>
   sent servo1 (snd (sync_write 30 [(1, [10]), (2, [1, 2, 3])] servo1))
     = [[255, 255, 254, 14, 131, 30, 4, 1, 10, 0, 2, 1, 0, 2, 0, 3, 0, 59]] \<and>
   fst (sync_write_body 30 [(1, [10, 20]), (2, [1, 2, 3])] servo1) = Inl AttributeError \<and>
   sent servo1 (snd (sync_write 30 [(1, [10, 20]), (2, [1, 2, 3])] servo1)) = []"
  by code_simp

section \<open>Faults stop at the decorator\<close>

lemma bin_has_one: "0 < n \<Longrightarrow> CHR ''1'' \<in> set (bin n)"
proof (induction n rule: bin.induct)
  case (1 n)
  show ?case
  proof (cases "n < 2")
    case True
    with "1.prems" have "n = 1" by simp
    then show ?thesis by (simp add: bin.simps [of "Suc 0"])
  next
    case False
    then have "0 < n div 2" by simp
    with False "1.IH" have "CHR ''1'' \<in> set (bin (n div 2))" by simp
    with False show ?thesis by (simp add: bin.simps [of n])
  qed
qed

lemma raise_exn_raises: "\<exists>x. fst (raise_exn e s) = Inl x"
  by (simp add: raise_exn_def)

lemma scan_bits_raises: "CHR ''1'' \<in> set bs \<Longrightarrow> \<exists>x. fst (scan_bits bs c s) = Inl x"
proof (induction bs arbitrary: c)
  case Nil
  then show ?case by simp
next
  case (Cons b bs)
  show ?case
  proof (cases "b = CHR ''1''")
    case True
    then show ?thesis using raise_exn_raises [of "err_lst ! c" s] by auto
  next
    case False
    with Cons.prems have "CHR ''1'' \<in> set bs" by simp
    then show ?thesis using False Cons.IH by simp
  qed
qed

lemma log_excep_body_raises: "e \<noteq> 0 \<Longrightarrow> \<exists>x. fst (log_excep_body e s) = Inl x"
proof -
  assume "e \<noteq> 0"
  then have "CHR ''1'' \<in> set (rev (zfill 8 (bin e)))"
    using bin_has_one [of e] by (simp add: zfill_def)
  then have "\<exists>x. fst (scan_bits (rev (zfill 8 (bin e))) 0 s) = Inl x"
    by (rule scan_bits_raises)
  then show ?thesis
    using \<open>e \<noteq> 0\<close> by (simp add: log_excep_body_def)
qed

lemma decorator_swallows:
  "fst r = Inl x \<Longrightarrow> fst (decorator_error_handling r) = Inr None"
  by (cases r) (simp add: decorator_error_handling_def)

lemma snd_case_result:
  "snd (case r of (Inl e, s1) \<Rightarrow> (Inl e, s1) | (Inr _, s1) \<Rightarrow> (Inr v, s1)) = snd r"
  by (cases r) (simp split: sum.splits)

lemma written_sync_write_body_raises:
  assumes "fst (sync_write_body m packet s) = Inl x"
  shows "written (snd (sync_write_body m packet s)) = written s"
proof -
  obtain r s1 where c: "collect packet [] [] s = (r, s1)" by (cases "collect packet [] [] s")
  then have w1: "written s1 = written s" using written_collect [of packet "[]" "[]" s] by simp
  show ?thesis
  proof (cases r)
    case (Inl e)
    then show ?thesis using c w1 by (simp add: sync_write_body_def)
  next
    case (Inr q)
    obtain il dl where q: "q = (il, dl)" by (cases q)
    show ?thesis
    proof (cases "il = []")
      case True
      then show ?thesis using c Inr q w1 by (simp add: sync_write_body_def)
    next
      case False
      define pkt where "pkt = [255, 255, 254,
          (int (length dl div length il) * 2 + 1) * int (length il) + 4, 131, m,
          int (length dl div length il) * 2]
          @ concat (map (\<lambda>param. fst param # concat (map word_bytes (snd param))) packet) @ [0]"
      have eq: "sync_write_body m packet s =
          (case send_sync pkt s1 of (Inl e, s2) \<Rightarrow> (Inl e, s2) | (Inr _, s2) \<Rightarrow> (Inr None, s2))"
        using c Inr q False by (simp add: sync_write_body_def Let_def pkt_def)
      have "pkt \<noteq> []" by (simp add: pkt_def)
      then have ss: "send_sync pkt s1 = serial_write (butlast pkt @ [check_sum pkt]) s1"
        by (simp add: send_sync_def set_last_def)
      have "\<not> bytearray_ok (butlast pkt @ [check_sum pkt])"
        using assms unfolding eq ss by (auto simp: serial_write_def split: if_splits)
      then have "snd (sync_write_body m packet s) = s1"
        unfolding eq ss by (simp add: serial_write_def)
      then show ?thesis using w1 by simp
    qed
  qed
qed

lemma length_sent_send_packet: "length (sent s (snd (send_packet pkt rp s))) \<le> Suc 0"
  by (simp add: sent_def written_send_packet)

lemma written_send_packet_grows:
  "\<exists>ps. written (snd (send_packet pkt rp s)) = written s @ ps \<and> length ps \<le> 1"
  by (simp add: written_send_packet)

lemma length_sent_sync_write_body: "length (sent s (snd (sync_write_body m packet s))) \<le> Suc 0"
proof -
  obtain r s1 where c: "collect packet [] [] s = (r, s1)" by (cases "collect packet [] [] s")
  then have w1: "written s1 = written s" using written_collect [of packet "[]" "[]" s] by simp
  show ?thesis
  proof (cases r)
    case (Inl e)
    then show ?thesis using c w1 by (simp add: sync_write_body_def)
  next
    case (Inr q)
    obtain il dl where q: "q = (il, dl)" by (cases q)
    show ?thesis
    proof (cases "il = []")
      case True
      then show ?thesis using c Inr q w1 by (simp add: sync_write_body_def)
    next
      case False
      define pkt where "pkt = [255, 255, 254,
          (int (length dl div length il) * 2 + 1) * int (length il) + 4, 131, m,
          int (length dl div length il) * 2]
          @ concat (map (\<lambda>param. fst param # concat (map word_bytes (snd param))) packet) @ [0]"
      have eq: "sync_write_body m packet s =
          (case send_sync pkt s1 of (Inl e, s2) \<Rightarrow> (Inl e, s2) | (Inr _, s2) \<Rightarrow> (Inr None, s2))"
        using c Inr q False by (simp add: sync_write_body_def Let_def pkt_def)
      show ?thesis
        unfolding eq snd_case_result by (simp add: sent_def written_send_sync w1)
    qed
  qed
qed

section \<open>The register read\<close>

lemma rx_raise_exn [simp]: "rx (snd (raise_exn e s)) = rx s"
  by (simp add: raise_exn_def)

lemma rx_scan_bits [simp]: "rx (snd (scan_bits bs c s)) = rx s"
  by (induction bs arbitrary: c) auto

lemma rx_decorator [simp]: "rx (snd (decorator_error_handling r)) = rx (snd r)"
  by (auto simp: decorator_error_handling_def split: prod.splits sum.splits)

lemma rx_log_excep [simp]: "rx (snd (log_excep e s)) = rx s"
  by (simp add: log_excep_def log_excep_body_def)

text \<open>The digits of an odd and of an even number.\<close>

lemma bin_odd: "odd n \<Longrightarrow> \<exists>ds. bin n = ds @ [CHR ''1'']"
proof (cases "n < 2")
  case True
  assume "odd n"
  with True have "n = 1" by (cases n) auto
  then show ?thesis by (simp add: bin.simps [of "Suc 0"])
next
  case False
  assume "odd n"
  with False show ?thesis by (simp add: bin.simps [of n])
qed

lemma bin_even: "even n \<Longrightarrow> 2 \<le> n \<Longrightarrow> bin n = bin (n div 2) @ [CHR ''0'']"
  by (simp add: bin.simps [of n])

lemma bit_nonzero: "bit (e::nat) k \<Longrightarrow> e \<noteq> 0"
  by (rule ccontr) simp

text \<open>
  The loop stops at the lowest set bit: at position \<open>k\<close> it raises \<^verbatim>\<open>err_lst[k]\<close> when
  there is such an entry.
\<close>

lemma scan_bits_lowest_bit:
  "bit e k \<Longrightarrow> (\<forall>i<k. \<not> bit e i) \<Longrightarrow>
   scan_bits (rev (bin e) @ zs) c s =
     (if c + k < length err_lst then raise_exn (err_lst ! (c + k)) s else (Inl IndexError, s))"
proof (induction k arbitrary: e c)
  case 0
  then have "odd e" by (simp add: bit_0)
  then obtain ds where "bin e = ds @ [CHR ''1'']" using bin_odd by blast
  then show ?case by simp
next
  case (Suc k)
  from Suc.prems(2) have "\<not> bit e 0" by blast
  then have ev: "even e" by (simp add: bit_0)
  from Suc.prems(1) have b: "bit (e div 2) k" by (simp add: bit_Suc)
  then have "e div 2 \<noteq> 0" by (rule bit_nonzero)
  then have "2 \<le> e" by (cases "e < 2") simp_all
  with ev have bn: "bin e = bin (e div 2) @ [CHR ''0'']" by (rule bin_even)
  have lo: "\<forall>i<k. \<not> bit (e div 2) i"
  proof (intro allI impI)
    fix i assume "i < k"
    then have "\<not> bit e (Suc i)" using Suc.prems(2) by simp
    then show "\<not> bit (e div 2) i" by (simp add: bit_Suc)
  qed
  have "scan_bits (rev (bin e) @ zs) c s = scan_bits (rev (bin (e div 2)) @ zs) (c + 1) s"
    by (simp add: bn)
  also have "\<dots> = (if c + 1 + k < length err_lst then raise_exn (err_lst ! (c + 1 + k)) s
                    else (Inl IndexError, s))"
    using Suc.IH [OF b lo] by simp
  finally show ?case by simp
qed

lemma log_excep_body_lowest_bit:
  assumes "k < 7" "bit e k" "\<forall>i<k. \<not> bit e i"
  shows "log_excep_body e s = (Inl (err_lst ! k), s\<lparr>debug_log := debug_log s @ [err_lst ! k]\<rparr>)"
proof -
  have nz: "e \<noteq> 0" using assms(2) by (rule bit_nonzero)
  have len: "length err_lst = 7" by (simp add: err_lst_def)
  have digits: "rev (zfill 8 (bin e)) = rev (bin e) @ replicate (8 - length (bin e)) (CHR ''0'')"
    by (simp add: zfill_def)
  have mem: "err_lst ! k \<in> set err_lst"
    using assms(1) len nth_mem [of k err_lst] by simp
  have "scan_bits (rev (zfill 8 (bin e))) 0 s = raise_exn (err_lst ! k) s"
    unfolding digits
    using scan_bits_lowest_bit [OF assms(2,3), of "replicate (8 - length (bin e)) (CHR ''0'')" 0 s]
      assms(1) len
    by simp
  also have "\<dots> = (Inl (err_lst ! k), s\<lparr>debug_log := debug_log s @ [err_lst ! k]\<rparr>)"
    using mem by (simp add: raise_exn_def)
  finally show ?thesis using nz by (simp add: log_excep_body_def)
qed

lemma log_excep_single_bit:
  assumes "k < 7"
  shows "log_excep (2 ^ k) s =
     (Inr None, s\<lparr>debug_log := debug_log s @ [err_lst ! k],
                  console := console s @ [Error_occured, Check_log_file]\<rparr>)"
proof -
  have "bit ((2::nat) ^ k) k" "\<forall>i<k. \<not> bit ((2::nat) ^ k) i"
    by (simp_all add: bit_exp_iff)
  then show ?thesis
    using log_excep_body_lowest_bit [OF assms, of "2 ^ k" s]
    by (simp add: log_excep_def decorator_error_handling_def)
qed

lemma log_excep_zero: "log_excep 0 s = (Inr (Some True), s)"
  by (simp add: log_excep_def log_excep_body_def decorator_error_handling_def)

lemma request_n_byte_eq:
  assumes "bytearray_ok [servo_id d, register, dt_len]"
  shows "request_n_byte register dt_len d =
     (let pkt = [255, 255, servo_id d, 4, 2, register, dt_len,
                 check_sum [255, 255, servo_id d, 4, 2, register, dt_len, 0]];
          status_packet = fst (serial_read (nat (6 + dt_len)) d);
          e = (if 6 \<le> length status_packet then status_packet ! 4 else err d)
      in (Inr (butlast (drop 5 status_packet)),
          snd (log_excep e (d\<lparr>written := written d @ [pkt], rx := tl (rx d), err := e\<rparr>))))"
proof -
  let ?pkt = "[255, 255, servo_id d, 4, 2, register, dt_len,
                 check_sum [255, 255, servo_id d, 4, 2, register, dt_len, 0]]"
  have ok: "bytearray_ok ?pkt"
    using assms check_sum_range [of "[255, 255, servo_id d, 4, 2, register, dt_len, 0]"]
    by (simp add: bytearray_ok_def)
  have w: "write_read_data_pkt register dt_len d = (Inr (), d\<lparr>written := written d @ [?pkt]\<rparr>)"
    using ok by (simp add: write_read_data_pkt_def send_packet_def set_last_def serial_write_def)
  show ?thesis
    unfolding request_n_byte_def w
    by (simp add: read_status_pkt_eq Let_def fst_serial_read_written)
qed

text \<open>
  Claim C5, as amended. For a servo id, a register address and a byte count that each fit
  a byte, the register read hands the read instruction
  \<^verbatim>\<open>FF FF id 04 02 register count checksum\<close> to the line and then reads once, asking for
  \<open>6 + count\<close> bytes, whatever the status return level of the session is. It returns the
  reply without its first five bytes and without its last byte; for a reply of the full
  \<open>6 + count\<close> bytes these are exactly the \<open>count\<close> payload bytes. When at least 6
  bytes came, byte 4 of the reply is stored as the last error and decoded: for the byte 0
  nothing is logged or printed, and for a byte with the single bit \<open>k \<le> 6\<close> set the
  fault of that bit is logged and the two notices are printed.
\<close>

theorem register_read:
  assumes "bytearray_ok [servo_id d, register, dt_len]"
  shows
    "(let reply = fst (serial_read (nat (6 + dt_len)) d);
          result = request_n_byte register dt_len d
      in sent d (snd result) =
           [[255, 255, servo_id d, 4, 2, register, dt_len,
             check_sum [255, 255, servo_id d, 4, 2, register, dt_len, 0]]] \<and>
         rx (snd result) = tl (rx d) \<and>
         fst result = Inr (butlast (drop 5 reply)) \<and>
         (\<forall>level. fst (request_n_byte register dt_len (d\<lparr>return_level := level\<rparr>)) = fst result) \<and>
         (length reply = nat (6 + dt_len) \<longrightarrow>
            fst result = Inr (take (nat dt_len) (drop 5 reply))) \<and>
         (6 \<le> length reply \<longrightarrow> err (snd result) = reply ! 4) \<and>
         (6 \<le> length reply \<and> reply ! 4 = 0 \<longrightarrow>
            debug_log (snd result) = debug_log d \<and> console (snd result) = console d) \<and>
         (\<forall>k<7. 6 \<le> length reply \<and> reply ! 4 = 2 ^ k \<longrightarrow>
            debug_log (snd result) = debug_log d @ [err_lst ! k] \<and>
            console (snd result) = console d @ [Error_occured, Check_log_file]))"
proof -
  define reply where "reply = fst (serial_read (nat (6 + dt_len)) d)"
  define e where "e = (if 6 \<le> length reply then reply ! 4 else err d)"
  define pkt where "pkt = [255, 255, servo_id d, 4, 2, register, dt_len,
                 check_sum [255, 255, servo_id d, 4, 2, register, dt_len, 0]]"
  define d1 where "d1 = d\<lparr>written := written d @ [pkt], rx := tl (rx d), err := e\<rparr>"
  define result where "result = request_n_byte register dt_len d"
  have eq: "result = (Inr (butlast (drop 5 reply)), snd (log_excep e d1))"
    unfolding result_def request_n_byte_eq [OF assms]
    by (simp add: Let_def reply_def e_def pkt_def d1_def)
  have c1: "sent d (snd result) = [pkt]"
    by (simp add: eq sent_def d1_def)
  have c2: "rx (snd result) = tl (rx d)"
    by (simp add: eq d1_def)
  have c3: "fst result = Inr (butlast (drop 5 reply))"
    by (simp add: eq)
  have c4: "fst (request_n_byte register dt_len (d\<lparr>return_level := level\<rparr>)) = fst result" for level
  proof -
    have a: "bytearray_ok [servo_id (d\<lparr>return_level := level\<rparr>), register, dt_len]"
      using assms by simp
    show ?thesis
      unfolding request_n_byte_eq [OF a] c3
      by (simp add: Let_def reply_def fst_serial_read_return_level)
  qed
  have c5: "fst result = Inr (take (nat dt_len) (drop 5 reply))"
    if "length reply = nat (6 + dt_len)"
  proof -
    have "0 \<le> dt_len" using assms by (simp add: bytearray_ok_def)
    then have "length (drop 5 reply) = Suc (nat dt_len)"
      using that by (simp add: nat_add_distrib)
    then have "butlast (drop 5 reply) = take (nat dt_len) (drop 5 reply)"
      by (simp add: butlast_conv_take)
    then show ?thesis by (simp add: c3)
  qed
  have c6: "err (snd result) = reply ! 4" if "6 \<le> length reply"
    using that by (simp add: eq d1_def e_def)
  have c7: "debug_log (snd result) = debug_log d \<and> console (snd result) = console d"
    if "6 \<le> length reply \<and> reply ! 4 = 0"
  proof -
    from that have "e = 0" by (simp add: e_def)
    then show ?thesis by (simp add: eq log_excep_zero d1_def)
  qed
  have c8: "debug_log (snd result) = debug_log d @ [err_lst ! k] \<and>
      console (snd result) = console d @ [Error_occured, Check_log_file]"
    if "k < 7" "6 \<le> length reply \<and> reply ! 4 = 2 ^ k" for k
  proof -
    from that(2) have "e = 2 ^ k" by (simp add: e_def)
    then show ?thesis by (simp add: eq log_excep_single_bit [OF that(1)] d1_def)
  qed
  from c1 c2 c3 c4 c5 c6 c7 c8 show ?thesis
    unfolding Let_def reply_def [symmetric] result_def [symmetric] pkt_def [symmetric]
    by blast
qed

theorem register_read_witness:
  "bytearray_ok [servo_id servo1, 36, 2] \<and>
   sent servo1 (snd (request_n_byte 36 2
       (servo1\<lparr>rx := [[255, 255, 1, 4, 4, 32, 0, 214]], return_level := 0\<rparr>)))
     = [[255, 255, 1, 4, 2, 36, 2, 210]] \<and>
   fst (request_n_byte 36 2 (servo1\<lparr>rx := [[255, 255, 1, 4, 4, 32, 0, 214]], return_level := 0\<rparr>))
     = Inr [32, 0] \<and>
   err (snd (request_n_byte 36 2
       (servo1\<lparr>rx := [[255, 255, 1, 4, 4, 32, 0, 214]], return_level := 0\<rparr>))) = 4 \<and>
   debug_log (snd (request_n_byte 36 2
       (servo1\<lparr>rx := [[255, 255, 1, 4, 4, 32, 0, 214]], return_level := 0\<rparr>)))
     = [OverheatingError] \<and>
   console (snd (request_n_byte 36 2
       (servo1\<lparr>rx := [[255, 255, 1, 4, 4, 32, 0, 214]], return_level := 0\<rparr>)))
     = [Error_occured, Check_log_file]"
proof -
  let ?d = "servo1\<lparr>rx := [[255, 255, 1, 4, 4, 32, 0, 214]], return_level := 0\<rparr>"
  have h0: "bytearray_ok [servo_id servo1, 36, 2]"
    by (simp add: servo1_def bytearray_ok_def)
  then have h: "bytearray_ok [servo_id ?d, 36, 2]" by simp
  have r: "fst (serial_read (nat (6 + 2)) ?d) = [255, 255, 1, 4, 4, 32, 0, 214]"
    by (simp add: serial_read_def)
  have c: "check_sum [255, 255, 1, 4, 2, 36, 2, 0] = 210" by (simp add: check_sum_def)
  have k: "(2::nat) < 7" by simp
  note t = register_read [OF h, unfolded Let_def r]
  have w: "written servo1 = []" "debug_log servo1 = []" "console servo1 = []" "servo_id servo1 = 1"
    by (simp_all add: servo1_def)
  from t have "sent ?d (snd (request_n_byte 36 2 ?d)) = [[255, 255, 1, 4, 2, 36, 2, 210]]"
    by (simp add: w c)
  then have s1: "sent servo1 (snd (request_n_byte 36 2 ?d)) = [[255, 255, 1, 4, 2, 36, 2, 210]]"
    by (simp add: sent_def)
  from t have s2: "fst (request_n_byte 36 2 ?d) = Inr [32, 0]" by simp
  from t have s3: "err (snd (request_n_byte 36 2 ?d)) = 4" by simp
  from t have q: "\<forall>k<7. (2::nat) ^ k = 4 \<longrightarrow>
      debug_log (snd (request_n_byte 36 2 ?d)) = debug_log servo1 @ [err_lst ! k] \<and>
      console (snd (request_n_byte 36 2 ?d)) = console servo1 @ [Error_occured, Check_log_file]"
    by simp
  have "(2::nat) ^ 2 = 4" by simp
  with q k have "debug_log (snd (request_n_byte 36 2 ?d)) = debug_log servo1 @ [err_lst ! 2] \<and>
      console (snd (request_n_byte 36 2 ?d)) = console servo1 @ [Error_occured, Check_log_file]"
    by blast
  then have s4: "debug_log (snd (request_n_byte 36 2 ?d)) = [OverheatingError]"
    and s5: "console (snd (request_n_byte 36 2 ?d)) = [Error_occured, Check_log_file]"
    by (simp_all add: w err_lst_def)
  from h0 s1 s2 s3 s4 s5 show ?thesis by (intro conjI)
qed

text \<open>
  A reply cut off after 7 of 8 bytes loses its second payload byte, dropped where the
  checksum is expected; and when no byte comes back, the error byte decoded is the stored
  one of an earlier exchange.
\<close>

theorem register_read_counterexample:
  "fst (request_n_byte 36 2 (servo1\<lparr>rx := [[255, 255, 1, 4, 0, 32, 0]]\<rparr>)) = Inr [32] \<and>
   fst (request_n_byte 36 2 (servo1\<lparr>rx := [[]], err := 1\<rparr>)) = Inr [] \<and>
   debug_log (snd (request_n_byte 36 2 (servo1\<lparr>rx := [[]], err := 1\<rparr>))) = [InputVoltageError]"
  by code_simp

section \<open>What the caller of a decorated operation sees\<close>

lemma length_sent_set_goal_position_body:
  "length (sent j (snd (set_goal_position_body rnd angle trigger j))) \<le> Suc 0"
  unfolding set_goal_position_body_def Let_def servo_set_goal_position_def write_n_word_pkt_def
    write_n_byte_pkt_def
  by (simp add: snd_case_result length_sent_send_packet print_def)

lemma length_sent_set_goal_pos_speed:
  "length (sent s (snd (set_goal_pos_speed position speed trigger s))) \<le> 2"
proof -
  let ?w = "write_n_word_pkt GOAL_POSITION [position] trigger s"
  obtain r s1 where w: "?w = (r, s1)" by (cases ?w)
  obtain ps where ps: "written s1 = written s @ ps" "length ps \<le> 1"
    using written_send_packet_grows [of _ False s] w
    unfolding write_n_word_pkt_def write_n_byte_pkt_def by (metis snd_conv)
  show ?thesis
  proof (cases r)
    case (Inl e)
    then show ?thesis using w ps by (simp add: set_goal_pos_speed_def sent_def)
  next
    case (Inr u)
    obtain qs where qs: "written (snd (write_n_word_pkt MOVING_SPEED [speed] trigger s1))
        = written s1 @ qs" "length qs \<le> 1"
      using written_send_packet_grows [of _ False s1]
      unfolding write_n_word_pkt_def write_n_byte_pkt_def by blast
    then show ?thesis using Inr w ps by (simp add: set_goal_pos_speed_def sent_def)
  qed
qed

lemma length_sent_set_desired_angle_speed_body:
  "length (sent j (snd (set_desired_angle_speed_body rnd angle speed trigger j))) \<le> 2"
proof -
  have "length (sent (j\<lparr>savedgoalposition := angle\<rparr>)
      (snd (set_goal_pos_speed p q trigger (j\<lparr>savedgoalposition := angle\<rparr>)))) \<le> 2" for p q
    by (rule length_sent_set_goal_pos_speed)
  then have "length (sent j
      (snd (set_goal_pos_speed p q trigger (j\<lparr>savedgoalposition := angle\<rparr>)))) \<le> 2" for p q
    by (simp add: sent_def)
  then show ?thesis
    unfolding set_desired_angle_speed_body_def Let_def
    by (simp add: snd_case_result print_def)
qed

text \<open>What is printed: the decoder and the sync-write print nothing themselves.\<close>

lemma console_raise_exn [simp]: "console (snd (raise_exn e s)) = console s"
  by (simp add: raise_exn_def)

lemma console_scan_bits [simp]: "console (snd (scan_bits bs c s)) = console s"
  by (induction bs arbitrary: c) auto

lemma console_log_excep_body [simp]: "console (snd (log_excep_body e s)) = console s"
  by (simp add: log_excep_body_def)

lemma console_decorator_caught:
  "fst r = Inl x \<Longrightarrow>
   console (snd (decorator_error_handling r)) = console (snd r) @ [Error_occured, Check_log_file]"
  by (cases r) (simp add: decorator_error_handling_def)

lemma console_log_excep_nonzero:
  assumes "e \<noteq> 0"
  shows "console (snd (log_excep e s)) = console s @ [Error_occured, Check_log_file]"
proof -
  obtain x where "fst (log_excep_body e s) = Inl x"
    using assms log_excep_body_raises by blast
  then show ?thesis
    unfolding log_excep_def using console_decorator_caught [of "log_excep_body e s" x] by simp
qed

lemma console_collect [simp]: "console (snd (collect packet il dl s)) = console s"
  by (induction packet arbitrary: il dl) (auto simp: Let_def)

lemma console_send_sync [simp]: "console (snd (send_sync pkt s)) = console s"
  by (simp add: send_sync_def set_last_def serial_write_def)

lemma console_sync_write_body [simp]: "console (snd (sync_write_body m packet s)) = console s"
proof -
  obtain r s1 where c: "collect packet [] [] s = (r, s1)" by (cases "collect packet [] [] s")
  then have w1: "console s1 = console s" using console_collect [of packet "[]" "[]" s] by simp
  show ?thesis
  proof (cases r)
    case (Inl e)
    then show ?thesis using c w1 by (simp add: sync_write_body_def)
  next
    case (Inr q)
    obtain il dl where q: "q = (il, dl)" by (cases q)
    show ?thesis
    proof (cases "il = []")
      case True
      then show ?thesis using c Inr q w1 by (simp add: sync_write_body_def)
    next
      case False
      define pkt where "pkt = [255, 255, 254,
          (int (length dl div length il) * 2 + 1) * int (length il) + 4, 131, m,
          int (length dl div length il) * 2]
          @ concat (map (\<lambda>param. fst param # concat (map word_bytes (snd param))) packet) @ [0]"
      have eq: "sync_write_body m packet s =
          (case send_sync pkt s1 of (Inl e, s2) \<Rightarrow> (Inl e, s2) | (Inr _, s2) \<Rightarrow> (Inr None, s2))"
        using c Inr q False by (simp add: sync_write_body_def Let_def pkt_def)
      show ?thesis
        unfolding eq snd_case_result by (simp add: w1)
    qed
  qed
qed

text \<open>
  Claim C3, as amended. A fault never reaches the caller of the decoder, of a status read
  or of the sync-write. Every nonzero error byte makes the decoder raise; the decorator
  catches what is raised, prints the two notice lines and returns \<open>None\<close>, so a status read
  returns the bytes read, with the two notices printed when the packet carries a nonzero
  error byte. Whenever the sync-write raises, the two notices are printed and \<open>None\<close> is
  returned, with nothing written. A joint setter answers an angle outside the soft limits
  by printing the message for an angle too large or too small and returning \<open>True\<close>, not
  with an error. Nothing is sent again: the decoder sends nothing, the sync-write and the
  single-angle setter at most one packet, the angle-and-speed setter at most two (one per
  register).
\<close>

theorem faults_stop_at_decorator:
  "(e \<noteq> 0 \<longrightarrow>
      (\<exists>x. fst (log_excep_body e s) = Inl x) \<and> fst (log_excep e s) = Inr None \<and>
      console (snd (log_excep e s)) = console s @ [Error_occured, Check_log_file]) \<and>
   fst (read_status_pkt n d) = Inr (fst (serial_read n d)) \<and>
   (6 \<le> length (fst (serial_read n d)) \<and> fst (serial_read n d) ! 4 \<noteq> 0 \<longrightarrow>
      console (snd (read_status_pkt n d)) = console d @ [Error_occured, Check_log_file]) \<and>
   ((\<exists>x. fst (sync_write_body m packet s) = Inl x) \<longrightarrow>
      fst (sync_write m packet s) = Inr None \<and> sent s (snd (sync_write m packet s)) = [] \<and>
      console (snd (sync_write m packet s)) = console s @ [Error_occured, Check_log_file]) \<and>
   (angle > rnd (a_max j - a_offset j) \<longrightarrow>
      set_goal_position rnd angle trigger j = (Inr (Some True), print Angle_zu_gross j) \<and>
      set_desired_angle_speed rnd angle speed trigger j
        = (Inr (Some True), print Angle_zu_gross (j\<lparr>savedgoalposition := angle\<rparr>))) \<and>
   (\<not> angle > rnd (a_max j - a_offset j) \<and> angle < rnd (a_min j - a_offset j) \<longrightarrow>
      set_goal_position rnd angle trigger j = (Inr (Some True), print Angle_zu_klein j) \<and>
      set_desired_angle_speed rnd angle speed trigger j
        = (Inr (Some True), print Angle_zu_klein (j\<lparr>savedgoalposition := angle\<rparr>))) \<and>
   sent s (snd (log_excep e s)) = [] \<and>
   length (sent s (snd (sync_write m packet s))) \<le> 1 \<and>
   length (sent j (snd (set_goal_position rnd angle trigger j))) \<le> 1 \<and>
   length (sent j (snd (set_desired_angle_speed rnd angle speed trigger j))) \<le> 2"
proof (intro conjI impI)
  assume "e \<noteq> 0"
  then show b: "\<exists>x. fst (log_excep_body e s) = Inl x" by (rule log_excep_body_raises)
  then show "fst (log_excep e s) = Inr None"
    unfolding log_excep_def using decorator_swallows by blast
  from \<open>e \<noteq> 0\<close> show "console (snd (log_excep e s)) = console s @ [Error_occured, Check_log_file]"
    by (rule console_log_excep_nonzero)
next
  show "fst (read_status_pkt n d) = Inr (fst (serial_read n d))"
    by (simp add: read_status_pkt_eq Let_def)
next
  assume "6 \<le> length (fst (serial_read n d)) \<and> fst (serial_read n d) ! 4 \<noteq> 0"
  then show "console (snd (read_status_pkt n d)) = console d @ [Error_occured, Check_log_file]"
    by (simp add: read_status_pkt_eq Let_def console_log_excep_nonzero)
next
  assume a: "\<exists>x. fst (sync_write_body m packet s) = Inl x"
  then show "fst (sync_write m packet s) = Inr None"
    unfolding sync_write_def using decorator_swallows by blast
  from a show "sent s (snd (sync_write m packet s)) = []"
    using written_sync_write_body_raises [of m packet s] by (auto simp: sync_write_def)
  from a obtain x where "fst (sync_write_body m packet s) = Inl x" by blast
  then show "console (snd (sync_write m packet s)) = console s @ [Error_occured, Check_log_file]"
    unfolding sync_write_def
    using console_decorator_caught [of "sync_write_body m packet s" x] by simp
next
  assume "angle > rnd (a_max j - a_offset j)"
  then show "set_goal_position rnd angle trigger j = (Inr (Some True), print Angle_zu_gross j)"
    by (simp add: set_goal_position_def set_goal_position_body_def decorator_error_handling_def)
next
  assume "angle > rnd (a_max j - a_offset j)"
  then show "set_desired_angle_speed rnd angle speed trigger j
      = (Inr (Some True), print Angle_zu_gross (j\<lparr>savedgoalposition := angle\<rparr>))"
    by (simp add: set_desired_angle_speed_def set_desired_angle_speed_body_def Let_def
        decorator_error_handling_def)
next
  assume "\<not> angle > rnd (a_max j - a_offset j) \<and> angle < rnd (a_min j - a_offset j)"
  then show "set_goal_position rnd angle trigger j = (Inr (Some True), print Angle_zu_klein j)"
    by (simp add: set_goal_position_def set_goal_position_body_def decorator_error_handling_def)
next
  assume "\<not> angle > rnd (a_max j - a_offset j) \<and> angle < rnd (a_min j - a_offset j)"
  then show "set_desired_angle_speed rnd angle speed trigger j
      = (Inr (Some True), print Angle_zu_klein (j\<lparr>savedgoalposition := angle\<rparr>))"
    by (simp add: set_desired_angle_speed_def set_desired_angle_speed_body_def Let_def
        decorator_error_handling_def)
next
  show "sent s (snd (log_excep e s)) = []" by simp
next
  show "length (sent s (snd (sync_write m packet s))) \<le> 1"
    by (simp add: sync_write_def length_sent_sync_write_body)
next
  show "length (sent j (snd (set_goal_position rnd angle trigger j))) \<le> 1"
    by (simp add: set_goal_position_def length_sent_set_goal_position_body)
next
  show "length (sent j (snd (set_desired_angle_speed rnd angle speed trigger j))) \<le> 2"
    by (simp add: set_desired_angle_speed_def length_sent_set_desired_angle_speed_body)
qed

text \<open>
  An error byte with bit 0 set comes back in the status packet of a register read: the
  decoder raises the input-voltage fault, its caller gets \<open>None\<close> and two printed lines,
  and the register read returns the payload as if nothing had happened. The sync-write
  raises on a batch of 2 and 3 values, and its caller gets \<open>None\<close>.
\<close>

theorem faults_stop_at_decorator_counterexample:
  "fst (log_excep_body 1 servo1) = Inl InputVoltageError \<and>
   fst (log_excep 1 servo1) = Inr None \<and>
   console (snd (log_excep 1 servo1)) = [Error_occured, Check_log_file] \<and>
   fst (request_n_byte 36 2 (servo1\<lparr>rx := [[255, 255, 1, 4, 1, 32, 0, 217]]\<rparr>)) = Inr [32, 0] \<and>
   fst (sync_write_body 30 [(1, [10, 20]), (2, [1, 2, 3])] servo1) = Inl AttributeError \<and>
   fst (sync_write 30 [(1, [10, 20]), (2, [1, 2, 3])] servo1) = Inr None"
  by code_simp

lemma joint1_exact_limits:
  "exact (a_max (joint1 exact) - a_offset (joint1 exact)) = 5 * pi / 6"
  "exact (a_min (joint1 exact) - a_offset (joint1 exact)) = - (5 * pi / 6)"
  by (simp_all add: joint1_def exact_def ANGLE_RADIAN_ZERO_def math_pi_def ANGLE_MAX_DEGREE_def
      ANGLE_MIN_DEGREE_def)

theorem faults_stop_at_decorator_witness:
  "console (snd (log_excep 1 servo1)) = [Error_occured, Check_log_file] \<and>
   fst (read_status_pkt 6 (servo1\<lparr>rx := [[255, 255, 1, 2, 1, 251]]\<rparr>))
     = Inr [255, 255, 1, 2, 1, 251] \<and>
   console (snd (read_status_pkt 6 (servo1\<lparr>rx := [[255, 255, 1, 2, 1, 251]]\<rparr>)))
     = [Error_occured, Check_log_file] \<and>
   fst (sync_write 30 [(1, [10, 20]), (2, [1, 2, 3])] servo1) = Inr None \<and>
   sent servo1 (snd (sync_write 30 [(1, [10, 20]), (2, [1, 2, 3])] servo1)) = [] \<and>
   console (snd (sync_write 30 [(1, [10, 20]), (2, [1, 2, 3])] servo1))
     = [Error_occured, Check_log_file] \<and>
   fst (set_goal_position exact 4 True (joint1 exact)) = Inr (Some True) \<and>
   console (snd (set_goal_position exact 4 True (joint1 exact))) = [Angle_zu_gross] \<and>
   fst (set_desired_angle_speed exact (- 4) 0 True (joint1 exact)) = Inr (Some True) \<and>
   console (snd (set_desired_angle_speed exact (- 4) 0 True (joint1 exact))) = [Angle_zu_klein]"
proof -
  let ?batch = "[(1, [10, 20]), (2, [1, 2, 3])] :: (int \<times> int list) list"
  let ?d = "servo1\<lparr>rx := [[255, 255, 1, 2, 1, 251]]\<rparr>"
  have p1: "(1::nat) \<noteq> 0" by simp
  have rd: "fst (serial_read 6 ?d) = [255, 255, 1, 2, 1, 251]"
    by (simp add: serial_read_def)
  then have p2: "6 \<le> length (fst (serial_read 6 ?d)) \<and> fst (serial_read 6 ?d) ! 4 \<noteq> 0"
    by simp
  have p3: "\<exists>x. fst (sync_write_body 30 ?batch servo1) = Inl x"
  proof
    show "fst (sync_write_body 30 ?batch servo1) = Inl AttributeError" by code_simp
  qed
  have p4: "4 > exact (a_max (joint1 exact) - a_offset (joint1 exact))"
    using pi_less_4 by (simp add: joint1_exact_limits)
  have p5: "\<not> - 4 > exact (a_max (joint1 exact) - a_offset (joint1 exact)) \<and>
      - 4 < exact (a_min (joint1 exact) - a_offset (joint1 exact))"
    unfolding joint1_exact_limits using pi_less_4 pi_ge_two by (intro conjI) linarith+
  have c0: "console servo1 = []" "console ?d = []" "console (joint1 exact) = []"
    by (simp_all add: servo1_def joint1_def)
  note a = faults_stop_at_decorator [where e = 1 and s = servo1 and n = 6 and d = ?d
      and m = 30 and packet = ?batch and rnd = exact and angle = 4 and j = "joint1 exact"
      and trigger = True and speed = 0]
  note b = faults_stop_at_decorator [where e = 1 and s = servo1 and n = 6 and d = ?d
      and m = 30 and packet = ?batch and rnd = exact and angle = "- 4" and j = "joint1 exact"
      and trigger = True and speed = 0]
  from a p1 have c1: "console (snd (log_excep 1 servo1)) = [Error_occured, Check_log_file]"
    by (simp add: c0)
  from a rd have c2: "fst (read_status_pkt 6 ?d) = Inr [255, 255, 1, 2, 1, 251]" by simp
  from a p2 have c3: "console (snd (read_status_pkt 6 ?d)) = [Error_occured, Check_log_file]"
    by (simp add: c0)
  from a p3 have c4: "fst (sync_write 30 ?batch servo1) = Inr None"
    and c5: "sent servo1 (snd (sync_write 30 ?batch servo1)) = []"
    and c6: "console (snd (sync_write 30 ?batch servo1)) = [Error_occured, Check_log_file]"
    by (simp_all add: c0)
  from a p4 have "set_goal_position exact 4 True (joint1 exact)
      = (Inr (Some True), print Angle_zu_gross (joint1 exact))" by simp
  then have c7: "fst (set_goal_position exact 4 True (joint1 exact)) = Inr (Some True)"
    and c8: "console (snd (set_goal_position exact 4 True (joint1 exact))) = [Angle_zu_gross]"
    by (simp_all add: print_def c0)
  from b p5 have "set_desired_angle_speed exact (- 4) 0 True (joint1 exact)
      = (Inr (Some True), print Angle_zu_klein ((joint1 exact)\<lparr>savedgoalposition := - 4\<rparr>))"
    by simp
  then have c9: "fst (set_desired_angle_speed exact (- 4) 0 True (joint1 exact)) = Inr (Some True)"
    and c10: "console (snd (set_desired_angle_speed exact (- 4) 0 True (joint1 exact)))
      = [Angle_zu_klein]"
    by (simp_all add: print_def c0)
  from c1 c2 c3 c4 c5 c6 c7 c8 c9 c10 show ?thesis by (intro conjI)
qed

section \<open>The joint setters and the soft limits\<close>

lemma sgp_raise_exn [simp]:
  "savedgoalposition (snd (raise_exn e j)) = savedgoalposition j"
  by (simp add: raise_exn_def)

lemma sgp_scan_bits [simp]:
  "savedgoalposition (snd (scan_bits bs c j)) = savedgoalposition j"
  by (induction bs arbitrary: c) auto

lemma sgp_decorator [simp]:
  "savedgoalposition (snd (decorator_error_handling r)) = savedgoalposition (snd r)"
  by (auto simp: decorator_error_handling_def split: prod.splits sum.splits)

lemma sgp_log_excep [simp]:
  "savedgoalposition (snd (log_excep e j)) = savedgoalposition j"
  by (simp add: log_excep_def log_excep_body_def)

lemma sgp_read_status_pkt [simp]:
  "savedgoalposition (snd (read_status_pkt n j)) = savedgoalposition j"
  by (simp add: read_status_pkt_eq Let_def)

lemma sgp_send_packet [simp]:
  "savedgoalposition (snd (send_packet pkt rp j)) = savedgoalposition j"
proof (cases "pkt \<noteq> [] \<and> bytearray_ok (butlast pkt @ [check_sum pkt])")
  case True
  let ?j1 = "j\<lparr>written := written j @ [butlast pkt @ [check_sum pkt]]\<rparr>"
  have "savedgoalposition (snd (read_status_pkt 6 ?j1)) = savedgoalposition j"
    by simp
  then show ?thesis
    using True
    by (simp add: send_packet_def set_last_def serial_write_def snd_case_result)
next
  case False
  then show ?thesis
    by (auto simp: send_packet_def set_last_def serial_write_def)
qed

lemma sgp_set_goal_position_body:
  "savedgoalposition (snd (set_goal_position_body rnd angle trigger j)) = savedgoalposition j"
  unfolding set_goal_position_body_def Let_def servo_set_goal_position_def write_n_word_pkt_def
    write_n_byte_pkt_def
  by (simp add: snd_case_result print_def)

text \<open>
  Claim C8, as amended. A request for an angle above \<open>a_max - a_offset\<close> or below
  \<open>a_min - a_offset\<close> is refused by both angle setters: nothing is handed to the serial
  line (so no clamped value either), the message for an angle too large or too small is
  printed, and the call returns \<open>True\<close>; that is all the single-angle setter does, and
  the angle-and-speed setter has by then stored the angle as saved goal position. The
  answer is a normal return and no error, and \<open>True\<close> does not single out the range
  violation: the angle-and-speed setter returns it as well, with another message, for an
  angle inside the limits and a speed that is negative or above the maximum.
\<close>

theorem soft_limit_refusal:
  assumes "angle > rnd (a_max j - a_offset j) \<or> angle < rnd (a_min j - a_offset j)"
  shows "set_goal_position rnd angle trigger j =
           (Inr (Some True),
            print (if angle > rnd (a_max j - a_offset j) then Angle_zu_gross else Angle_zu_klein) j) \<and>
         sent j (snd (set_goal_position rnd angle trigger j)) = [] \<and>
         set_desired_angle_speed rnd angle speed trigger j =
           (Inr (Some True),
            print (if angle > rnd (a_max j - a_offset j) then Angle_zu_gross else Angle_zu_klein)
              (j\<lparr>savedgoalposition := angle\<rparr>)) \<and>
         sent j (snd (set_desired_angle_speed rnd angle speed trigger j)) = [] \<and>
         (\<not> (inside > rnd (a_max j - a_offset j) \<or> inside < rnd (a_min j - a_offset j)) \<and>
          (speed' > SPEED_MAX_RPM rnd \<or> speed' < 0) \<longrightarrow>
            set_desired_angle_speed rnd inside speed' trigger j =
              (Inr (Some True), print Invalid_speed_value (j\<lparr>savedgoalposition := inside\<rparr>)))"
  using assms
  by (auto simp: set_goal_position_def set_goal_position_body_def set_desired_angle_speed_def
      set_desired_angle_speed_body_def decorator_error_handling_def Let_def print_def sent_def)

theorem soft_limit_refusal_witness:
  "fst (set_goal_position exact 4 True (joint1 exact)) = Inr (Some True) \<and>
   console (snd (set_goal_position exact 4 True (joint1 exact))) = [Angle_zu_gross] \<and>
   written (snd (set_goal_position exact 4 True (joint1 exact))) = [] \<and>
   fst (set_desired_angle_speed exact 4 50 True (joint1 exact)) = Inr (Some True) \<and>
   written (snd (set_desired_angle_speed exact 4 50 True (joint1 exact))) = [] \<and>
   fst (set_desired_angle_speed exact 0 (- 1) True (joint1 exact)) = Inr (Some True) \<and>
   console (snd (set_desired_angle_speed exact 0 (- 1) True (joint1 exact))) = [Invalid_speed_value]"
proof -
  have gt: "4 > exact (a_max (joint1 exact) - a_offset (joint1 exact))"
    using pi_less_4 by (simp add: joint1_exact_limits)
  then have h: "4 > exact (a_max (joint1 exact) - a_offset (joint1 exact)) \<or>
      4 < exact (a_min (joint1 exact) - a_offset (joint1 exact))"
    by simp
  have ins: "\<not> (0 > exact (a_max (joint1 exact) - a_offset (joint1 exact)) \<or>
      0 < exact (a_min (joint1 exact) - a_offset (joint1 exact))) \<and>
      (- 1 > SPEED_MAX_RPM exact \<or> (- 1::real) < 0)"
    using pi_gt_zero by (simp add: joint1_exact_limits)
  have w: "written (joint1 exact) = []" "console (joint1 exact) = []"
    by (simp_all add: joint1_def)
  note t = soft_limit_refusal [OF h, where trigger = True and speed = 50 and inside = 0
      and speed' = "- 1"]
  from t gt have c1: "set_goal_position exact 4 True (joint1 exact)
      = (Inr (Some True), print Angle_zu_gross (joint1 exact))"
    and c2: "set_desired_angle_speed exact 4 50 True (joint1 exact)
      = (Inr (Some True), print Angle_zu_gross ((joint1 exact)\<lparr>savedgoalposition := 4\<rparr>))"
    by simp_all
  from t ins have c3: "set_desired_angle_speed exact 0 (- 1) True (joint1 exact)
      = (Inr (Some True), print Invalid_speed_value ((joint1 exact)\<lparr>savedgoalposition := 0\<rparr>))"
    by blast
  show ?thesis
    by (simp add: c1 c2 c3 print_def w)
qed

text \<open>
  The default joint asked for the angle 4, above its upper limit of \<open>5\<pi>/6\<close>: the call
  returns normally with the value \<open>True\<close>, the value that also comes back for the
  angle 0, inside the limits, with the speed \<open>-1\<close>.
\<close>

theorem soft_limit_refusal_counterexample:
  "fst (set_goal_position exact 4 True (joint1 exact)) = Inr (Some True) \<and>
   fst (set_desired_angle_speed exact 4 50 True (joint1 exact)) = Inr (Some True) \<and>
   fst (set_desired_angle_speed exact 0 (- 1) True (joint1 exact)) = Inr (Some True)"
proof -
  have gt: "4 > exact (a_max (joint1 exact) - a_offset (joint1 exact))"
    using pi_less_4 by (simp add: joint1_exact_limits)
  have ins: "\<not> 0 > exact (a_max (joint1 exact) - a_offset (joint1 exact))"
      "\<not> 0 < exact (a_min (joint1 exact) - a_offset (joint1 exact))"
    using pi_gt_zero by (simp_all add: joint1_exact_limits)
  show ?thesis
    using gt ins
    by (simp add: set_goal_position_def set_goal_position_body_def set_desired_angle_speed_def
        set_desired_angle_speed_body_def decorator_error_handling_def Let_def)
qed

text \<open>
  Claim C10. The angle-and-speed setter stores the requested angle as saved goal position
  before it tests the limits, so a refused angle is stored all the same (as is every
  other); the single-angle setter never changes the saved goal position that
  \<^verbatim>\<open>get_saved_goal_position\<close> returns.
\<close>

theorem savedgoalposition_updates:
  "(angle > rnd (a_max j - a_offset j) \<or> angle < rnd (a_min j - a_offset j) \<longrightarrow>
      get_saved_goal_position (snd (set_desired_angle_speed rnd angle speed trigger j)) = angle) \<and>
   get_saved_goal_position (snd (set_goal_position rnd angle trigger j)) = get_saved_goal_position j"
proof (intro conjI impI)
  assume "angle > rnd (a_max j - a_offset j) \<or> angle < rnd (a_min j - a_offset j)"
  then show "get_saved_goal_position (snd (set_desired_angle_speed rnd angle speed trigger j)) = angle"
    by (auto simp: get_saved_goal_position_def set_desired_angle_speed_def
        set_desired_angle_speed_body_def Let_def print_def)
next
  show "get_saved_goal_position (snd (set_goal_position rnd angle trigger j)) = get_saved_goal_position j"
    by (simp add: get_saved_goal_position_def set_goal_position_def sgp_set_goal_position_body)
qed

theorem savedgoalposition_updates_witness:
  "(4 > exact (a_max (joint1 exact) - a_offset (joint1 exact)) \<or>
    4 < exact (a_min (joint1 exact) - a_offset (joint1 exact))) \<and>
   get_saved_goal_position (snd (set_desired_angle_speed exact 4 50 True (joint1 exact))) = 4 \<and>
   get_saved_goal_position (snd (set_goal_position exact 4 True (joint1 exact))) = 0 \<and>
   get_saved_goal_position (joint1 exact) = 0"
proof -
  have h: "4 > exact (a_max (joint1 exact) - a_offset (joint1 exact)) \<or>
      4 < exact (a_min (joint1 exact) - a_offset (joint1 exact))"
    using pi_less_4 by (simp add: joint1_exact_limits)
  have z: "get_saved_goal_position (joint1 exact) = 0"
    by (simp add: get_saved_goal_position_def joint1_def)
  show ?thesis
    using h z savedgoalposition_updates [where angle = 4 and j = "joint1 exact" and speed = 50
        and trigger = True and rnd = exact]
    by simp
qed

section \<open>Angles and ticks\<close>

text \<open>
  A rounding is accurate enough here when, on magnitudes between \<open>2\<^sup>-\<^sup>1\<^sup>0\<close> and \<open>2\<^sup>1\<^sup>2\<close>, it
  changes a number by at most a thousandth of it; the rounding of doubles changes it by at
  most \<open>2\<^sup>-\<^sup>5\<^sup>3\<close> of it. Bounds that follow for a positive and for a negative number:
\<close>

lemma rnd_pos:
  assumes acc: "\<forall>x::real. 1 / 1024 \<le> \<bar>x\<bar> \<and> \<bar>x\<bar> \<le> 4096 \<longrightarrow> \<bar>rnd x - x\<bar> \<le> \<bar>x\<bar> / 1000"
    and "1 / 1024 \<le> x" "x \<le> 4096"
  shows "x * (999 / 1000) \<le> rnd x" "rnd x \<le> x * (1001 / 1000)"
proof -
  have "1 / 1024 \<le> \<bar>x\<bar> \<and> \<bar>x\<bar> \<le> 4096" using assms(2,3) by auto
  then have "\<bar>rnd x - x\<bar> \<le> \<bar>x\<bar> / 1000" using acc by blast
  moreover have "\<bar>x\<bar> = x" using assms(2) by simp
  ultimately have "\<bar>rnd x - x\<bar> \<le> x / 1000" by simp
  then show "x * (999 / 1000) \<le> rnd x" "rnd x \<le> x * (1001 / 1000)" by linarith+
qed

lemma rnd_neg:
  assumes acc: "\<forall>x::real. 1 / 1024 \<le> \<bar>x\<bar> \<and> \<bar>x\<bar> \<le> 4096 \<longrightarrow> \<bar>rnd x - x\<bar> \<le> \<bar>x\<bar> / 1000"
    and "x \<le> - (1 / 1024)" "- 4096 \<le> x"
  shows "x * (1001 / 1000) \<le> rnd x" "rnd x \<le> x * (999 / 1000)"
proof -
  have "1 / 1024 \<le> \<bar>x\<bar> \<and> \<bar>x\<bar> \<le> 4096" using assms(2,3) by auto
  then have "\<bar>rnd x - x\<bar> \<le> \<bar>x\<bar> / 1000" using acc by blast
  moreover have "\<bar>x\<bar> = - x" using assms(2) by simp
  ultimately have "\<bar>rnd x - x\<bar> \<le> - x / 1000" by simp
  then show "x * (1001 / 1000) \<le> rnd x" "rnd x \<le> x * (999 / 1000)" by linarith+
qed

text \<open>The ticks per radian lie between 148 and 326 under every such rounding.\<close>

lemma ANGLE_UNIT_bounds:
  assumes acc: "\<forall>x::real. 1 / 1024 \<le> \<bar>x\<bar> \<and> \<bar>x\<bar> \<le> 4096 \<longrightarrow> \<bar>rnd x - x\<bar> \<le> \<bar>x\<bar> / 1000"
  shows "148 \<le> ANGLE_UNIT rnd" "ANGLE_UNIT rnd \<le> 326"
proof -
  define P where "P = rnd pi"
  define A where "A = rnd (300 * P)"
  define B where "B = rnd (A * 2)"
  define C where "C = rnd (B / 360)"
  have u: "ANGLE_UNIT rnd = rnd (1023 / C)"
    by (simp add: ANGLE_UNIT_def ANGLE_MAX_TICKS_def ANGLE_MAX_DEGREE_def ANGLE_MIN_DEGREE_def
        math_pi_def P_def A_def B_def C_def)
  have p: "2 \<le> pi" "pi \<le> 4" using pi_ge_two pi_less_4 by simp_all
  have "1 / 1024 \<le> pi" "pi \<le> 4096" using p by linarith+
  note rp = rnd_pos [OF acc this]
  have P: "19 / 10 \<le> P" "P \<le> 41 / 10" using rp p unfolding P_def by linarith+
  have "1 / 1024 \<le> 300 * P" "300 * P \<le> 4096" using P by linarith+
  note ra = rnd_pos [OF acc this]
  have A: "569 \<le> A" "A \<le> 1232" using ra P unfolding A_def by linarith+
  have "1 / 1024 \<le> A * 2" "A * 2 \<le> 4096" using A by linarith+
  note rb = rnd_pos [OF acc this]
  have B: "1136 \<le> B" "B \<le> 2467" using rb A unfolding B_def by linarith+
  have "1 / 1024 \<le> B / 360" "B / 360 \<le> 4096" using B by linarith+
  note rc = rnd_pos [OF acc this]
  have C: "315 / 100 \<le> C" "C \<le> 686 / 100" using rc B unfolding C_def by linarith+
  have c0: "0 < C" using C by linarith
  define Q where "Q = 1023 / C"
  have q: "149 \<le> Q" "Q \<le> 325"
    using C c0 unfolding Q_def by (simp_all add: pos_le_divide_eq pos_divide_le_eq)
  have "1 / 1024 \<le> Q" "Q \<le> 4096" using q by linarith+
  note ru = rnd_pos [OF acc this]
  show "148 \<le> ANGLE_UNIT rnd" "ANGLE_UNIT rnd \<le> 326"
    using ru q unfolding u Q_def [symmetric] by linarith+
qed

text \<open>
  Claim C7 at the angle 0 with the offset \<open>-1/512\<close> (a double) and reversed rotation,
  under every rounding accurate as above: the sum times the ticks per radian lies between
  \<open>-1\<close> and 0 and is truncated to 0 ticks, mirrored to \<open>1023 - 1 - 0 = 1022\<close>; the way back
  mirrors with \<open>1023 - 1022 = 1\<close>, one tick more than went in, and returns an angle more
  than one tick's worth of radians away from the angle 0.
\<close>

theorem reversed_round_trip_off:
  assumes acc: "\<forall>x::real. 1 / 1024 \<le> \<bar>x\<bar> \<and> \<bar>x\<bar> \<le> 4096 \<longrightarrow> \<bar>rnd x - x\<bar> \<le> \<bar>x\<bar> / 1000"
  shows "convert_angle_to_ticks rnd 0 True (- (1 / 512)) = 1022 \<and>
         1 / ANGLE_UNIT rnd
           < \<bar>convert_ticks_to_angle rnd (convert_angle_to_ticks rnd 0 True (- (1 / 512))) True
                (- (1 / 512)) - 0\<bar>"
proof -
  define U where "U = ANGLE_UNIT rnd"
  have U: "148 \<le> U" "U \<le> 326" using ANGLE_UNIT_bounds [OF acc] by (simp_all add: U_def)
  define o' where "o' = rnd (0 + (- (1 / 512)))"
  have "- (1 / 512) \<le> - (1 / (1024::real))" "- 4096 \<le> - (1 / (512::real))" by simp_all
  note ro = rnd_neg [OF acc this]
  have o: "- (1 / 512) * (1001 / 1000) \<le> o'" "o' \<le> - (1 / 512) * (999 / 1000)"
    using ro unfolding o'_def by simp_all
  have prod_hi: "o' * U \<le> - (1 / 1024)"
  proof -
    have "(1 / 512 * (999 / 1000)) * 148 \<le> (- o') * U"
      using o U by (intro mult_mono) simp_all
    then show ?thesis by simp
  qed
  have prod_lo: "- (64 / 100) \<le> o' * U"
  proof -
    have "(- o') * U \<le> (1 / 512 * (1001 / 1000)) * 326"
      using o U by (intro mult_mono) simp_all
    then show ?thesis by simp
  qed
  define x where "x = rnd (o' * U)"
  have "- 4096 \<le> o' * U" using prod_lo by linarith
  note rx = rnd_neg [OF acc prod_hi this]
  have x: "- 1 < x" "x < 0"
    using rx prod_hi prod_lo unfolding x_def by linarith+
  then have "py_int x = 0" by (simp add: py_int_def ceiling_eq_iff)
  then have ticks: "convert_angle_to_ticks rnd 0 True (- (1 / 512)) = 1022"
    by (simp add: convert_angle_to_ticks_def Let_def x_def o'_def U_def)
  define t where "t = 1 / U"
  have u0: "0 < U" using U by linarith
  have t: "1 / 326 \<le> t" "t \<le> 1 / 148"
    using U u0 unfolding t_def by (simp_all add: frac_le)
  have "1 / 1024 \<le> t" "t \<le> 4096" using t by linarith+
  note rt = rnd_pos [OF acc this]
  define a where "a = rnd t"
  have a: "t * (999 / 1000) \<le> a" "a \<le> t * (1001 / 1000)"
    using rt unfolding a_def by simp_all
  have ret: "convert_ticks_to_angle rnd 1022 True (- (1 / 512)) = rnd (a + 1 / 512)"
    by (simp add: convert_ticks_to_angle_def Let_def a_def t_def U_def)
  have "1 / 1024 \<le> a + 1 / 512" "a + 1 / 512 \<le> 4096" using a t by linarith+
  note rr = rnd_pos [OF acc this]
  define r where "r = rnd (a + 1 / 512)"
  have "a * (999 / 1000) + 999 / 512000 \<le> r"
    using rr(1) unfolding r_def by (simp add: algebra_simps)
  moreover have "t * (999 / 1000) * (999 / 1000) \<le> a * (999 / 1000)"
    using a(1) by simp
  ultimately have "t * (998001 / 1000000) + 999 / 512000 \<le> r" by simp
  then have "t < rnd (a + 1 / 512)" using t unfolding r_def by linarith
  moreover have "0 < t" using t by linarith
  ultimately have "1 / U < \<bar>rnd (a + 1 / 512) - 0\<bar>" by (simp add: t_def)
  then show ?thesis by (simp add: ticks ret U_def)
qed

lemma exact_accurate:
  "\<forall>x::real. 1 / 1024 \<le> \<bar>x\<bar> \<and> \<bar>x\<bar> \<le> 4096 \<longrightarrow> \<bar>exact x - x\<bar> \<le> \<bar>x\<bar> / 1000"
  by (simp add: exact_def)

theorem reversed_round_trip_off_witness:
  "convert_angle_to_ticks exact 0 True (- (1 / 512)) = 1022 \<and>
   1 / ANGLE_UNIT exact
     < \<bar>convert_ticks_to_angle exact (convert_angle_to_ticks exact 0 True (- (1 / 512))) True
          (- (1 / 512)) - 0\<bar>"
  by (rule reversed_round_trip_off) (rule exact_accurate)

section \<open>The three defects in general form\<close>

text \<open>
  Whatever other bits are set, an error byte with bit 0 set makes the decoder raise and log
  the input-voltage fault and nothing else.
\<close>

lemma log_excep_body_odd:
  assumes "odd e"
  shows "log_excep_body e s = (Inl InputVoltageError, s\<lparr>debug_log := debug_log s @ [InputVoltageError]\<rparr>)"
proof -
  obtain ds where "bin e = ds @ [CHR ''1'']" using assms bin_odd by blast
  then have "rev (zfill 8 (bin e)) = CHR ''1'' # rev ds @ replicate (8 - length (bin e)) (CHR ''0'')"
    by (simp add: zfill_def)
  moreover have "e \<noteq> 0" using assms by (cases e) auto
  ultimately show ?thesis
    by (simp add: log_excep_body_def err_lst_def raise_exn_def)
qed

text \<open>
  A read that gets fewer than 6 bytes keeps the stored error byte and passes it to the
  decoder again.
\<close>

lemma read_status_pkt_short:
  assumes "length (fst (serial_read n d)) < 6"
  shows "read_status_pkt n d
           = (Inr (fst (serial_read n d)), snd (log_excep (err d) (d\<lparr>rx := tl (rx d)\<rparr>)))"
  using assms by (simp add: read_status_pkt_eq Let_def)

text \<open>
  For a batch of two entries the length test of the sync-write passes exactly when the two
  numbers of values add up to an even number, equal or not.
\<close>

lemma collect_two:
  "collect [(i, xs), (k, ys)] [] [] s =
     (if (length xs + length ys) mod 2 \<noteq> 0 then raise_exn PacketTypeError s
      else (Inr ([i, k], xs @ ys), s))"
  by (simp add: Let_def numeral_2_eq_2)

end
